theory Spec2Isabelle
  imports Main
begin

section \<open>Strings and values of the scripts\<close>

text \<open>
  The scripts are JavaScript. A string is modelled as a \<^typ>\<open>string\<close> whose characters
  are the code units U+0000 .. U+00FF (the Latin-1 part of UTF-16); the character classes
  below are the ones JavaScript uses on that range.
\<close>

definition isSpace :: "char \<Rightarrow> bool" where
  \<comment> \<open>the regular expression class \<open>\s\<close>, which is also what \<open>trim()\<close> strips:
      TAB, LF, VT, FF, CR, SPACE and NO-BREAK SPACE\<close>
  "isSpace c \<longleftrightarrow> (let n = (of_char c :: nat) in (9 \<le> n \<and> n \<le> 13) \<or> n = 32 \<or> n = 160)"

definition isLineTerminator :: "char \<Rightarrow> bool" where
  \<comment> \<open>what the regular expression \<open>.\<close> does not match: LF and CR\<close>
  "isLineTerminator c \<longleftrightarrow> (let n = (of_char c :: nat) in n = 10 \<or> n = 13)"

definition isLowerAlnum :: "char \<Rightarrow> bool" where
  \<comment> \<open>the class \<open>[a-z0-9]\<close>\<close>
  "isLowerAlnum c \<longleftrightarrow>
     (let n = (of_char c :: nat) in (97 \<le> n \<and> n \<le> 122) \<or> (48 \<le> n \<and> n \<le> 57))"

definition lowerChar :: "char \<Rightarrow> char" where
  \<comment> \<open>\<open>toLowerCase\<close> on one code unit: A-Z, and U+00C0 .. U+00DE except the
      multiplication sign U+00D7, move up by 32\<close>
  "lowerChar c =
     (let n = (of_char c :: nat)
      in if (65 \<le> n \<and> n \<le> 90) \<or> (192 \<le> n \<and> n \<le> 222 \<and> n \<noteq> 215)
         then char_of (n + 32) else c)"

definition toLowerCase :: "string \<Rightarrow> string" where
  "toLowerCase s = map lowerChar s"

definition trim :: "string \<Rightarrow> string" where
  "trim s = rev (dropWhile isSpace (rev (dropWhile isSpace s)))"

text \<open>
  A JavaScript value as the frontmatter of a note can hold it. Numbers matter to the
  scripts only through truthiness and \<open>typeof\<close>, so a number is an integer or NaN;
  \<open>JObj\<close> stands for any other object (a \<open>Date\<close>, a nested mapping).
\<close>

datatype jsval =
    JUndefined
  | JNull
  | JBool bool
  | JNum int
  | JNaN
  | JStr string
  | JArr "jsval list"
  | JObj

fun truthy :: "jsval \<Rightarrow> bool" where
  "truthy JUndefined = False"
| "truthy JNull = False"
| "truthy (JBool b) = b"
| "truthy (JNum n) = (n \<noteq> 0)"
| "truthy JNaN = False"
| "truthy (JStr s) = (s \<noteq> [])"
| "truthy (JArr xs) = True"
| "truthy JObj = True"

fun isString :: "jsval \<Rightarrow> bool" where
  \<comment> \<open>\<open>typeof v === 'string'\<close>\<close>
  "isString (JStr s) = True"
| "isString _ = False"

fun isArray :: "jsval \<Rightarrow> bool" where
  \<comment> \<open>\<open>Array.isArray(v)\<close>\<close>
  "isArray (JArr xs) = True"
| "isArray _ = False"

section \<open>Cross-poster: tag sanitizer\<close>

text \<open>\<open>sanitizeTags\<close> of \<open>scripts/publish-devto.mjs\<close>.\<close>

definition sanitizeTag :: "jsval \<Rightarrow> string option" where
  \<comment> \<open>the callback of \<open>map\<close>; \<open>None\<close> is the \<open>null\<close> returned for a non-string\<close>
  "sanitizeTag tag =
     (case tag of
        JStr s \<Rightarrow>
          Some (trim (filter isLowerAlnum
                 (toLowerCase (filter (\<lambda>c. \<not> (c = CHR ''-'' \<or> c = CHR ''_'' \<or> isSpace c)) s))))
      | _ \<Rightarrow> None)"

definition keepTag :: "string option \<Rightarrow> bool" where
  \<comment> \<open>the callback of \<open>filter\<close>: \<open>tag && tag.length > 0\<close>\<close>
  "keepTag t = (case t of None \<Rightarrow> False | Some s \<Rightarrow> s \<noteq> [] \<and> 0 < length s)"

definition sanitizeTags :: "jsval \<Rightarrow> string list" where
  "sanitizeTags tags =
     (case tags of
        JArr ts \<Rightarrow> map the (take 4 (filter keepTag (map sanitizeTag ts)))
      | _ \<Rightarrow> [])"

text \<open>The sanitizer as the specification words it, for comparison with the code.\<close>

definition spec_clean_tag :: "string \<Rightarrow> string" where
  \<comment> \<open>strip hyphens, underscores and whitespace; lower-case; strip what is left that is
      not alphanumeric\<close>
  "spec_clean_tag s =
     filter isLowerAlnum
       (toLowerCase (filter (\<lambda>c. c \<noteq> CHR ''-'' \<and> c \<noteq> CHR ''_'' \<and> \<not> isSpace c) s))"

fun string_entries :: "jsval list \<Rightarrow> string list" where
  \<comment> \<open>the string entries of a tag list, in order\<close>
  "string_entries [] = []"
| "string_entries (JStr s # ts) = s # string_entries ts"
| "string_entries (_ # ts) = string_entries ts"

definition spec_sanitize_tags :: "jsval list \<Rightarrow> string list" where
  \<comment> \<open>clean every string tag, drop the empty results, keep the first four\<close>
  "spec_sanitize_tags ts =
     take 4 (filter (\<lambda>s. s \<noteq> []) (map spec_clean_tag (string_entries ts)))"

section \<open>Paths, slugs and image names\<close>

text \<open>
  The scripts call \<open>path.extname\<close> and \<open>path.basename\<close> of Node's POSIX \<open>path\<close>
  module. Both look at the last component of the path only: what lies between the last
  slash that is followed by a non-slash character and the trailing slashes.
\<close>

definition isSlash :: "char \<Rightarrow> bool" where
  "isSlash c \<longleftrightarrow> c = CHR ''/''"

definition isDot :: "char \<Rightarrow> bool" where
  "isDot c \<longleftrightarrow> c = CHR ''.''"

definition lastSegment :: "string \<Rightarrow> string" where
  "lastSegment p = rev (takeWhile (\<lambda>c. \<not> isSlash c) (dropWhile isSlash (rev p)))"

definition stem :: "string \<Rightarrow> string" where
  \<comment> \<open>what precedes the last dot of a component that has a dot\<close>
  "stem seg = rev (tl (dropWhile (\<lambda>c. \<not> isDot c) (rev seg)))"

definition lastDotPart :: "string \<Rightarrow> string" where
  \<comment> \<open>the last dot of a component and what follows it\<close>
  "lastDotPart seg = CHR ''.'' # rev (takeWhile (\<lambda>c. \<not> isDot c) (rev seg))"

definition extname :: "string \<Rightarrow> string" where
  \<comment> \<open>\<open>path.extname\<close>: from the last dot of the last component to its end; empty when
      there is no dot, when the only dot is the first character, and for \<open>..\<close>\<close>
  "extname p =
     (let seg = lastSegment p
      in if CHR ''.'' \<notin> set seg \<or> stem seg = [] \<or> seg = ''..'' then []
         else lastDotPart seg)"

definition basename1 :: "string \<Rightarrow> string" where
  \<comment> \<open>\<open>path.basename(p)\<close>\<close>
  "basename1 p = lastSegment p"

definition isSuffixOf :: "string \<Rightarrow> string \<Rightarrow> bool" where
  "isSuffixOf suf s \<longleftrightarrow> length suf \<le> length s \<and> drop (length s - length suf) s = suf"

definition basename2 :: "string \<Rightarrow> string \<Rightarrow> string" where
  \<comment> \<open>\<open>path.basename(p, suffix)\<close>. Node compares the suffix with the last component
      from the right: a full match that leaves something is cut off, a mismatch or a match
      of the whole component leaves the component as it is, and a component that ends
      before the suffix does leaves the path from the component on, trailing slashes
      included.\<close>
  "basename2 p suffix =
     (if suffix \<noteq> [] \<and> length suffix \<le> length p then
        if suffix = p then []
        else
          let seg = lastSegment p
          in if isSuffixOf suffix seg then
               (if seg = suffix then seg else take (length seg - length suffix) seg)
             else if isSuffixOf seg suffix then seg @ takeWhile isSlash (rev p)
             else seg
      else lastSegment p)"

definition getBasename :: "string \<Rightarrow> string" where
  "getBasename filePath = basename2 filePath (extname filePath)"

function replaceSpaceRuns :: "string \<Rightarrow> string" where
  \<comment> \<open>\<open>.replace(/\s+/g, '-')\<close>\<close>
  "replaceSpaceRuns [] = []"
| "replaceSpaceRuns (c # cs) =
     (if isSpace c then CHR ''-'' # replaceSpaceRuns (dropWhile isSpace cs)
      else c # replaceSpaceRuns cs)"
  by pat_completeness auto
termination
  by (relation "measure length") (auto simp: less_Suc_eq_le length_dropWhile_le)

definition slugify :: "string \<Rightarrow> string" where
  \<comment> \<open>the class \<open>[^a-z0-9\s-]\<close> is removed, so \<open>[a-z0-9]\<close>, whitespace and the hyphen stay\<close>
  "slugify name =
     replaceSpaceRuns
       (trim (filter (\<lambda>c. isLowerAlnum c \<or> isSpace c \<or> c = CHR ''-'') (toLowerCase name)))"

definition normalizeImageName :: "string \<Rightarrow> string" where
  "normalizeImageName imageName =
     (let ext = extname imageName;
          basename = basename2 imageName ext;
          normalized = replaceSpaceRuns (toLowerCase basename)
      in normalized @ ext)"

section \<open>Import script: frontmatter normalization\<close>

text \<open>
  The frontmatter of a note is an object; reading a key that is not there gives
  \<open>undefined\<close>, so it is modelled as a total function into \<^typ>\<open>jsval\<close>.
\<close>

type_synonym frontmatter = "string \<Rightarrow> jsval"

definition normalizeArray :: "jsval \<Rightarrow> jsval" where
  "normalizeArray v =
     (if isArray v then v
      else if truthy v \<and> isString v then JArr [v]
      else JArr [])"

definition stripHash :: "jsval \<Rightarrow> jsval" where
  \<comment> \<open>the callback that cleans one tag\<close>
  "stripHash tag =
     (case tag of
        JStr s \<Rightarrow> (if take 1 s = ''#'' then JStr (drop 1 s) else JStr s)
      | _ \<Rightarrow> tag)"

fun elements :: "jsval \<Rightarrow> jsval list" where
  \<comment> \<open>the elements of an array; nothing for any other value\<close>
  "elements (JArr xs) = xs"
| "elements _ = []"

definition titleUnusable :: "jsval \<Rightarrow> bool" where
  \<comment> \<open>\<open>!title || typeof title !== 'string' || title.trim() === ''\<close>\<close>
  "titleUnusable t \<longleftrightarrow>
     \<not> truthy t \<or> \<not> isString t \<or> (case t of JStr s \<Rightarrow> trim s = [] | _ \<Rightarrow> False)"

definition processFrontmatter :: "frontmatter \<Rightarrow> string \<Rightarrow> (string \<Rightarrow> string) \<Rightarrow> frontmatter" where
  "processFrontmatter fm filename getBasenameFn =
     (let basename = getBasenameFn filename;
          fm1 = (if titleUnusable (fm ''title'') then fm(''title'' := JStr basename) else fm);
          fm2 = fm1(''tags'' := normalizeArray (fm1 ''tags''));
          fm3 = fm2(''authors'' := normalizeArray (fm2 ''authors''))
      in case fm3 ''tags'' of
           JArr ts \<Rightarrow> fm3(''tags'' := JArr (map stripHash ts))
         | _ \<Rightarrow> fm3)"

section \<open>Import script: validation and the note pipeline\<close>

text \<open>
  What JavaScript computes outside the scripts is a parameter of the model: whether
  \<open>new Date(v)\<close> is a valid date, and how a value prints inside a template string.
\<close>

record js_env =
  dateValid :: "jsval \<Rightarrow> bool"
  toStr :: "jsval \<Rightarrow> string"

fun joinWith :: "string \<Rightarrow> string list \<Rightarrow> string" where
  \<comment> \<open>\<open>Array.prototype.join\<close> on strings\<close>
  "joinWith sep [] = []"
| "joinWith sep [x] = x"
| "joinWith sep (x # y # ys) = x @ sep @ joinWith sep (y # ys)"

definition validateFrontmatter :: "js_env \<Rightarrow> frontmatter \<Rightarrow> string option" where
  \<comment> \<open>the error message, or \<open>None\<close> for \<open>null\<close>\<close>
  "validateFrontmatter env fm =
     (let issues1 =
            (if \<not> truthy (fm ''description'') then [''description (missing)'']
             else if \<not> isString (fm ''description'')
               then [''description (invalid type, expected string)'']
             else []);
          issues2 =
            (if \<not> truthy (fm ''date'') then [''date (missing)'']
             else if \<not> dateValid env (fm ''date'')
               then [''date (invalid: '' @ [CHR 0x22] @ toStr env (fm ''date'') @ [CHR 0x22] @ '')'']
             else []);
          issues = issues1 @ issues2
      in if 0 < length issues
         then Some (''frontmatter validation failed: '' @ joinWith '', '' issues)
         else None)"

definition getSkipReason :: "frontmatter \<Rightarrow> string option" where
  "getSkipReason fm =
     (if fm ''can_skip'' = JBool True \<or> fm ''can_skip'' = JStr ''true''
        then Some ''can_skip property is set to true''
      else if fm ''is_draft'' = JBool True \<or> fm ''is_draft'' = JStr ''true''
        then Some ''post is marked as draft''
      else None)"

definition parseObsidianFrontMatter ::
  "frontmatter \<Rightarrow> string \<Rightarrow> (string \<Rightarrow> string) \<Rightarrow> frontmatter" where
  "parseObsidianFrontMatter fm filename getBasenameFn =
     (let basename = getBasenameFn filename;
          fm1 = (if titleUnusable (fm ''title'') then fm(''title'' := JStr basename) else fm);
          fm2 = fm1(''tags'' := normalizeArray (fm1 ''tags''))
      in case fm2 ''tags'' of
           JArr ts \<Rightarrow> fm2(''tags'' := JArr (map stripHash ts))
         | _ \<Rightarrow> fm2)"

datatype note_status = Imported | Skipped | Error

record note_result =
  status :: note_status
  filename :: string
  message :: "string option"
  slug :: "string option"

record image_result =
  success :: bool
  originalName :: string
  normalizedName :: "string option"
  error :: "string option"

record config =
  sourceMarkdownDir :: string
  sourceAttachmentDir :: string
  targetDir :: string

text \<open>
  The file system and the libraries the pipeline awaits. A call that throws is
  \<open>Inl message\<close> (or \<open>Some message\<close> where nothing is returned).
\<close>

record note_io =
  pathJoin :: "string \<Rightarrow> string \<Rightarrow> string"
  readNoteFile :: "string \<Rightarrow> string + (frontmatter \<times> string)"
  ensureDir :: "string \<Rightarrow> string option"
  processImagesIO :: "string \<Rightarrow> string \<Rightarrow> string \<Rightarrow> string + (string \<times> image_result list)"
  buildMdxContent :: "string \<Rightarrow> frontmatter \<Rightarrow> string + string"
  writeFile :: "string \<Rightarrow> string \<Rightarrow> string option"

definition noteError :: "string \<Rightarrow> string \<Rightarrow> note_result" where
  \<comment> \<open>the \<open>catch\<close> of \<open>processNote\<close>\<close>
  "noteError fname msg = \<lparr>status = Error, filename = fname, message = Some msg, slug = None\<rparr>"

definition truthyStr :: "string option \<Rightarrow> bool" where
  \<comment> \<open>the test \<open>if (s)\<close> on a string or \<open>null\<close>\<close>
  "truthyStr s = (case s of None \<Rightarrow> False | Some r \<Rightarrow> r \<noteq> [])"

definition importNote ::
  "note_io \<Rightarrow> string \<Rightarrow> config \<Rightarrow> frontmatter \<Rightarrow> string \<Rightarrow> note_result" where
  \<comment> \<open>\<open>processNote\<close> from the slug on, for a note that is neither skipped nor rejected\<close>
  "importNote io filePath cfg fm body =
     (let fname = basename1 filePath;
          slg = slugify (getBasename filePath);
          destinationDir = pathJoin io (targetDir cfg) slg
      in case ensureDir io destinationDir of
           Some e \<Rightarrow> noteError fname e
         | None \<Rightarrow>
             (let processed = parseObsidianFrontMatter fm filePath getBasename
              in case processImagesIO io body (sourceAttachmentDir cfg) destinationDir of
                   Inl e \<Rightarrow> noteError fname e
                 | Inr (content, results) \<Rightarrow>
                     (case buildMdxContent io content processed of
                        Inl e \<Rightarrow> noteError fname e
                      | Inr finalContent \<Rightarrow>
                          (case writeFile io (pathJoin io destinationDir ''index.mdx'')
                                  finalContent of
                             Some e \<Rightarrow> noteError fname e
                           | None \<Rightarrow>
                               \<lparr>status = Imported, filename = fname, message = None,
                                slug = Some slg\<rparr>))))"

definition processNote :: "js_env \<Rightarrow> note_io \<Rightarrow> string \<Rightarrow> config \<Rightarrow> note_result" where
  "processNote env io filePath cfg =
     (let fname = basename1 filePath
      in case readNoteFile io filePath of
           Inl e \<Rightarrow> noteError fname e
         | Inr (fm, body) \<Rightarrow>
             (let skipReason = getSkipReason fm
              in if truthyStr skipReason
                 then \<lparr>status = Skipped, filename = fname, message = skipReason, slug = None\<rparr>
                 else
                   (let validationError = validateFrontmatter env fm
                    in if truthyStr validationError
                       then \<lparr>status = Error, filename = fname, message = validationError,
                             slug = None\<rparr>
                       else importNote io filePath cfg fm body)))"

section \<open>Import script: batch runner\<close>

text \<open>
  A promise settles as fulfilled with a value or as rejected with a reason. Of the reason
  the runner reads its \<open>message\<close> property and its string conversion.
\<close>

record rejection =
  reasonMessage :: "string option"
  reasonString :: string

datatype 'a settled = Fulfilled 'a | Rejected rejection

definition rejectionMessage :: "rejection \<Rightarrow> string" where
  \<comment> \<open>\<open>result.reason?.message || String(result.reason) || 'unknown error'\<close>\<close>
  "rejectionMessage r =
     (case reasonMessage r of
        Some m \<Rightarrow> (if m \<noteq> [] then m
                   else if reasonString r \<noteq> [] then reasonString r else ''unknown error'')
      | None \<Rightarrow> (if reasonString r \<noteq> [] then reasonString r else ''unknown error''))"

definition collectResult :: "string \<Rightarrow> note_result settled \<Rightarrow> note_result" where
  \<comment> \<open>the body of \<open>batchResults.forEach\<close>, for the note at \<open>filePath\<close>\<close>
  "collectResult filePath r =
     (case r of
        Fulfilled v \<Rightarrow> v
      | Rejected reason \<Rightarrow>
          \<lparr>status = Error, filename = basename1 filePath,
           message = Some (rejectionMessage reason), slug = None\<rparr>)"

definition runBatch :: "(string \<Rightarrow> note_result settled) \<Rightarrow> string list \<Rightarrow> note_result list" where
  \<comment> \<open>one window: \<open>Promise.allSettled\<close> keeps the order of the batch\<close>
  "runBatch run batch = map (\<lambda>filePath. collectResult filePath (run filePath)) batch"

partial_function (option) batchLoop ::
  "(string \<Rightarrow> note_result settled) \<Rightarrow> string list \<Rightarrow> nat \<Rightarrow> nat \<Rightarrow> note_result list
     \<Rightarrow> note_result list option" where
  \<comment> \<open>the \<open>for\<close> loop; \<open>None\<close> is a loop that never ends\<close>
  "batchLoop run filePaths concurrency i results =
     (if i < length filePaths
      then batchLoop run filePaths concurrency (i + concurrency)
             (results @ runBatch run (take concurrency (drop i filePaths)))
      else Some results)"

definition processFilesInParallel ::
  "(string \<Rightarrow> note_result settled) \<Rightarrow> (string \<Rightarrow> string \<Rightarrow> string) \<Rightarrow> string list \<Rightarrow> config
     \<Rightarrow> nat \<Rightarrow> note_result list option" where
  \<comment> \<open>\<open>run\<close> is the settled outcome of \<open>processNote\<close> on a path, \<open>join\<close> is
      \<open>path.join\<close>\<close>
  "processFilesInParallel run join files cfg concurrency =
     batchLoop run (map (\<lambda>file. join (sourceMarkdownDir cfg) file) files) concurrency 0 []"


section \<open>Image relocator\<close>

text \<open>
  \<open>scripts/utils/obsidian-image-utils.mjs\<close>. The pattern
  \<open>/!\[\[\s*(.*?)\s*\]\]/g\<close> is matched by hand: after \<open>![[\<close> the first \<open>\s*\<close>
  takes all the whitespace there is, the lazy group takes the fewest characters other
  than line terminators after which \<open>\s*\]\]\<close> matches, and the second \<open>\s*\<close> again
  takes all the whitespace. (Giving whitespace back to the group never turns a failure
  into a match, so the greedy choice is the engine's result.)
\<close>

definition startsWith :: "string \<Rightarrow> string \<Rightarrow> bool" where
  "startsWith s p \<longleftrightarrow> take (length p) s = p"

definition closeAt :: "string \<Rightarrow> string option" where
  \<comment> \<open>\<open>\s*\]\]\<close> at the start of \<open>s\<close>: what follows the match\<close>
  "closeAt s =
     (let r = dropWhile isSpace s in if startsWith r '']]'' then Some (drop 2 r) else None)"

fun lazyName :: "string \<Rightarrow> string \<Rightarrow> (string \<times> string) option" where
  \<comment> \<open>the group \<open>(.*?)\<close> followed by \<open>\s*\]\]\<close>: the name and what follows the match\<close>
  "lazyName acc [] = (case closeAt [] of Some rest \<Rightarrow> Some (rev acc, rest) | None \<Rightarrow> None)"
| "lazyName acc (c # cs) =
     (case closeAt (c # cs) of
        Some rest \<Rightarrow> Some (rev acc, rest)
      | None \<Rightarrow> if isLineTerminator c then None else lazyName (c # acc) cs)"

definition matchAt :: "string \<Rightarrow> (string \<times> string) option" where
  \<comment> \<open>the pattern at the start of \<open>s\<close>: the captured name and what follows the match\<close>
  "matchAt s =
     (if startsWith s ''![['' then lazyName [] (dropWhile isSpace (drop 3 s)) else None)"

fun matchAllFrom :: "nat \<Rightarrow> string \<Rightarrow> (string \<times> string) list" where
  \<comment> \<open>the matches as pairs of \<open>match[0]\<close> and \<open>match[1]\<close>; \<open>k\<close> characters of the last
      match are still to be passed over\<close>
  "matchAllFrom k [] = []"
| "matchAllFrom k (c # cs) =
     (if 0 < k then matchAllFrom (k - 1) cs
      else case matchAt (c # cs) of
             None \<Rightarrow> matchAllFrom 0 cs
           | Some (name, rest) \<Rightarrow>
               (take (length (c # cs) - length rest) (c # cs), name)
                 # matchAllFrom (length (c # cs) - length rest - 1) cs)"

definition matchAll :: "string \<Rightarrow> (string \<times> string) list" where
  "matchAll content = matchAllFrom 0 content"

text \<open>
  \<open>String.prototype.replace\<close> with a string pattern and a string replacement: the first
  occurrence of the pattern is replaced, and in the replacement \<open>$$\<close>, \<open>$&\<close>, \<open>$`\<close> and
  \<open>$'\<close> stand for a dollar sign, the matched text, the text before it and the text
  after it (with no capture groups every other \<open>$\<close> is literal).
\<close>

fun getSubstitution :: "string \<Rightarrow> string \<Rightarrow> string \<Rightarrow> string \<Rightarrow> string" where
  "getSubstitution matched pre post [] = []"
| "getSubstitution matched pre post [c] = [c]"
| "getSubstitution matched pre post (c # d # r) =
     (if c = CHR ''$'' \<and> d = CHR ''$'' then CHR ''$'' # getSubstitution matched pre post r
      else if c = CHR ''$'' \<and> d = CHR ''&'' then matched @ getSubstitution matched pre post r
      else if c = CHR ''$'' \<and> d = CHR 0x60 then pre @ getSubstitution matched pre post r
      else if c = CHR ''$'' \<and> d = CHR 0x27 then post @ getSubstitution matched pre post r
      else c # getSubstitution matched pre post (d # r))"

fun splitFirst :: "string \<Rightarrow> string \<Rightarrow> (string \<times> string) option" where
  \<comment> \<open>the text before and after the first occurrence of \<open>pat\<close>\<close>
  "splitFirst pat [] = (if pat = [] then Some ([], []) else None)"
| "splitFirst pat (c # cs) =
     (if startsWith (c # cs) pat then Some ([], drop (length pat) (c # cs))
      else map_option (\<lambda>(a, b). (c # a, b)) (splitFirst pat cs))"

definition jsReplace :: "string \<Rightarrow> string \<Rightarrow> string \<Rightarrow> string" where
  \<comment> \<open>\<open>s.replace(pat, replacement)\<close>\<close>
  "jsReplace s pat replacement =
     (case splitFirst pat s of
        None \<Rightarrow> s
      | Some (pre, post) \<Rightarrow> pre @ getSubstitution pat pre post replacement @ post)"

record image_io =
  fsJoin :: "string \<Rightarrow> string \<Rightarrow> string"
  fsPathExists :: "string \<Rightarrow> bool"
  fsCopy :: "string \<Rightarrow> string \<Rightarrow> string option"
  fsEnsureDir :: "string \<Rightarrow> string option"

definition copyImage ::
  "image_io \<Rightarrow> string \<Rightarrow> string \<Rightarrow> string \<Rightarrow> string \<Rightarrow> string + image_result" where
  "copyImage io sourcePath destPath origName normName =
     (if fsPathExists io sourcePath then
        (case fsCopy io sourcePath destPath of
           Some e \<Rightarrow> Inl e
         | None \<Rightarrow>
             Inr \<lparr>success = True, originalName = origName, normalizedName = Some normName,
                  error = None\<rparr>)
      else
        Inr \<lparr>success = False, originalName = origName, normalizedName = None,
             error = Some ''missing''\<rparr>)"

definition markdownImage :: "string \<Rightarrow> string" where
  \<comment> \<open>the replacement string of a token\<close>
  "markdownImage normName = ''!['' @ normName @ ''](./assets/'' @ normName @ '')''"

fun imageLoop ::
  "image_io \<Rightarrow> string \<Rightarrow> string \<Rightarrow> (string \<times> string) list \<Rightarrow> string
     \<Rightarrow> (string + image_result) list \<Rightarrow> string \<times> (string + image_result) list" where
  \<comment> \<open>the \<open>for\<close> loop over the matches: the rewritten content and the copy tasks\<close>
  "imageLoop io sourceDir assetsDir [] updatedContent imageTasks = (updatedContent, imageTasks)"
| "imageLoop io sourceDir assetsDir ((token, originalImageName) # ms) updatedContent imageTasks =
     (let normalizedImageName = normalizeImageName originalImageName;
          sourceImagePath = fsJoin io sourceDir originalImageName;
          destImagePath = fsJoin io assetsDir normalizedImageName
      in imageLoop io sourceDir assetsDir ms
           (jsReplace updatedContent token (markdownImage normalizedImageName))
           (imageTasks @ [copyImage io sourceImagePath destImagePath originalImageName
                            normalizedImageName]))"

fun promiseAll :: "(string + 'a) list \<Rightarrow> string + 'a list" where
  \<comment> \<open>\<open>Promise.all\<close>: all the values, or the reason of a rejected task (the first one in
      the list here; which one settles first is not modelled)\<close>
  "promiseAll [] = Inr []"
| "promiseAll (Inl e # ts) = Inl e"
| "promiseAll (Inr v # ts) = (case promiseAll ts of Inl e \<Rightarrow> Inl e | Inr vs \<Rightarrow> Inr (v # vs))"

definition processImages ::
  "image_io \<Rightarrow> string \<Rightarrow> string \<Rightarrow> string \<Rightarrow> string + (string \<times> image_result list)" where
  "processImages io content sourceDir destDir =
     (let matches = matchAll content
      in if length matches = 0 then Inr (content, [])
         else
           (let assetsDir = fsJoin io destDir ''assets''
            in case fsEnsureDir io assetsDir of
                 Some e \<Rightarrow> Inl e
               | None \<Rightarrow>
                   (case imageLoop io sourceDir assetsDir matches content [] of
                      (updatedContent, imageTasks) \<Rightarrow>
                        (case promiseAll imageTasks of
                           Inl e \<Rightarrow> Inl e
                         | Inr results \<Rightarrow> Inr (updatedContent, results)))))"

definition copyOf :: "image_io \<Rightarrow> string \<Rightarrow> string \<Rightarrow> string \<Rightarrow> string + image_result" where
  \<comment> \<open>the copy task that \<open>processImages\<close> starts for the image named \<open>name\<close>\<close>
  "copyOf io sourceDir destDir name =
     copyImage io (fsJoin io sourceDir name)
       (fsJoin io (fsJoin io destDir ''assets'') (normalizeImageName name))
       name (normalizeImageName name)"

text \<open>
  The utilities that the import script loads hold a later variant of \<open>copyImage\<close>, which
  wraps the existence test and the copy in \<open>try\<close>/\<open>catch\<close>: it never throws, and a copy
  that fails is reported like a missing file, with the message of the error.
\<close>

definition copyImageCatching ::
  "image_io \<Rightarrow> string \<Rightarrow> string \<Rightarrow> string \<Rightarrow> string \<Rightarrow> image_result" where
  "copyImageCatching io sourcePath destPath origName normName =
     (if \<not> fsPathExists io sourcePath then
        \<lparr>success = False, originalName = origName, normalizedName = Some normName,
         error = None\<rparr>
      else
        (case fsCopy io sourcePath destPath of
           Some e \<Rightarrow>
             \<lparr>success = False, originalName = origName, normalizedName = Some normName,
              error = Some e\<rparr>
         | None \<Rightarrow>
             \<lparr>success = True, originalName = origName, normalizedName = Some normName,
              error = None\<rparr>))"

text \<open>
  The relocator of the utilities that the import script loads. Its pattern is
  \<open>/!\[\[([^\]]+)\]\]/g\<close>: after \<open>![[\<close> the group takes every character up to the next
  \<open>]\<close>, at least one, and \<open>]]\<close> must follow. (A shorter group would be followed by a
  character other than \<open>]\<close>, so the greedy choice is the only one that can match.)
\<close>

definition bracketName :: "string \<Rightarrow> (string \<times> string) option" where
  \<comment> \<open>\<open>([^\]]+)\]\]\<close> at the start of \<open>s\<close>: the group and what follows the match\<close>
  "bracketName s =
     (let name = takeWhile (\<lambda>c. c \<noteq> CHR '']'') s;
          r = dropWhile (\<lambda>c. c \<noteq> CHR '']'') s
      in if name \<noteq> [] \<and> startsWith r '']]'' then Some (name, drop 2 r) else None)"

definition obsidianImageAt :: "string \<Rightarrow> (string \<times> string) option" where
  \<comment> \<open>\<open>OBSIDIAN_IMAGE_REGEX\<close> at the start of \<open>s\<close>\<close>
  "obsidianImageAt s = (if startsWith s ''![['' then bracketName (drop 3 s) else None)"

fun obsidianImagesFrom :: "nat \<Rightarrow> string \<Rightarrow> (string \<times> string) list" where
  \<comment> \<open>the matches as pairs of \<open>match[0]\<close> and \<open>match[1]\<close>; \<open>k\<close> characters of the last
      match are still to be passed over\<close>
  "obsidianImagesFrom k [] = []"
| "obsidianImagesFrom k (c # cs) =
     (if 0 < k then obsidianImagesFrom (k - 1) cs
      else case obsidianImageAt (c # cs) of
             None \<Rightarrow> obsidianImagesFrom 0 cs
           | Some (name, rest) \<Rightarrow>
               (take (length (c # cs) - length rest) (c # cs), name)
                 # obsidianImagesFrom (length (c # cs) - length rest - 1) cs)"

definition obsidianImages :: "string \<Rightarrow> (string \<times> string) list" where
  \<comment> \<open>\<open>[...content.matchAll(OBSIDIAN_IMAGE_REGEX)]\<close>\<close>
  "obsidianImages content = obsidianImagesFrom 0 content"

definition nameText :: "image_result \<Rightarrow> string" where
  \<comment> \<open>\<open>result.normalizedName\<close> inside a template string\<close>
  "nameText r = (case normalizedName r of Some n \<Rightarrow> n | None \<Rightarrow> ''undefined'')"

definition copyTask :: "image_io \<Rightarrow> string \<Rightarrow> string \<Rightarrow> string \<times> string \<Rightarrow> image_result" where
  \<comment> \<open>the settled task of \<open>imageTasks\<close> for one match; it cannot reject\<close>
  "copyTask io sourceDir assetsDir m =
     (let originalImageName = trim (snd m);
          normalizedImageName = normalizeImageName originalImageName;
          sourceImagePath = fsJoin io sourceDir originalImageName;
          destImagePath = fsJoin io assetsDir normalizedImageName
      in copyImageCatching io sourceImagePath destImagePath originalImageName
           normalizedImageName)"

fun replaceTokens :: "string \<Rightarrow> ((string \<times> string) \<times> image_result) list \<Rightarrow> string" where
  \<comment> \<open>\<open>matches.forEach\<close>: each match with the result of the same index\<close>
  "replaceTokens updatedContent [] = updatedContent"
| "replaceTokens updatedContent ((m, result) # rest) =
     replaceTokens (jsReplace updatedContent (fst m) (markdownImage (nameText result))) rest"

definition processImagesCatching ::
  "image_io \<Rightarrow> string \<Rightarrow> string \<Rightarrow> string \<Rightarrow> string + (string \<times> image_result list)" where
  \<comment> \<open>\<open>processImages\<close> of the import utilities; only \<open>fs.ensureDir\<close> can make it
      reject\<close>
  "processImagesCatching io content sourceDir destDir =
     (let matches = obsidianImages content
      in if length matches = 0 then Inr (content, [])
         else
           (let assetsDir = fsJoin io destDir ''assets''
            in case fsEnsureDir io assetsDir of
                 Some e \<Rightarrow> Inl e
               | None \<Rightarrow>
                   (let results = map (copyTask io sourceDir assetsDir) matches
                    in Inr (replaceTokens content (zip matches results), results))))"

definition scriptIo :: "image_io \<Rightarrow> note_io \<Rightarrow> note_io" where
  \<comment> \<open>the calls of the import script as it is wired: \<open>path.join\<close>, \<open>fs.ensureDir\<close> and
      the \<open>processImages\<close> that it loads from its utilities, all over the file system
      \<open>fs\<close>\<close>
  "scriptIo fs io =
     io\<lparr>pathJoin := fsJoin fs, ensureDir := fsEnsureDir fs,
        processImagesIO := processImagesCatching fs\<rparr>"

section \<open>Cross-poster: creating or updating the remote article\<close>

text \<open>
  \<open>processPost\<close> of \<open>scripts/publish-devto.mjs\<close>. The remote service, the file system,
  the frontmatter library, the clock and the site URL of the environment are an oracle;
  a response of the service is an object, or \<open>None\<close> for a response on which reading a
  property throws. The conversion of the body to Markdown is a pure function of the body
  and the post id and is taken as a parameter as well.
\<close>

record remote_article =
  raId :: jsval
  raUrl :: jsval
  raPublished :: jsval
  raCanonicalUrl :: jsval

record article_data =
  adTitle :: jsval
  adBodyMarkdown :: string
  adTags :: "string list"
  adPublished :: bool
  adCanonicalUrl :: string
  adDescription :: jsval
  adMainImage :: "string option"

record meta_entry =
  devtoId :: jsval
  devtoUrl :: jsval
  canonicalUrl :: string
  lastUpdated :: string

record sync_result =
  srSkipped :: bool
  srId :: string
  srDevtoId :: jsval
  srDevtoUrl :: jsval
  srPublished :: jsval

record devto_io =
  originalSiteUrl :: string
  readPost :: "string \<Rightarrow> string + string"
  matterParse :: "string \<Rightarrow> string + (frontmatter \<times> string)"
  convertMdxToMarkdown :: "string \<Rightarrow> string \<Rightarrow> string"
  getAllDevToArticles :: "string + remote_article list"
  updateArticle :: "jsval \<Rightarrow> article_data \<Rightarrow> string + remote_article option"
  createArticle :: "article_data \<Rightarrow> string + remote_article option"
  nowIso :: string
  typeErrorMessage :: string

definition GITHUB_RAW_BASE_URL :: string where
  "GITHUB_RAW_BASE_URL = ''https://raw.githubusercontent.com/theinfinull/portfolio/refs/heads/main''"

definition DEFAULT_BANNER_URL :: string where
  "DEFAULT_BANNER_URL = ''/public/static/common/default-post-banner-1200x630.jpg''"

definition convertImagePathToUrl :: "jsval \<Rightarrow> string \<Rightarrow> string option" where
  \<comment> \<open>\<open>None\<close> is \<open>null\<close>\<close>
  "convertImagePathToUrl imagePath postId =
     (case imagePath of
        JStr p \<Rightarrow>
          (if p = [] then None
           else if startsWith p ''http://'' \<or> startsWith p ''https://'' then Some p
           else Some (GITHUB_RAW_BASE_URL @ ''/src/content/blog/'' @ postId @ ''/'' @ p))
      | _ \<Rightarrow> None)"

definition getArticleByCanonicalUrl :: "devto_io \<Rightarrow> string \<Rightarrow> string + remote_article option" where
  "getArticleByCanonicalUrl io url =
     (case getAllDevToArticles io of
        Inl e \<Rightarrow> Inl e
      | Inr articles \<Rightarrow> Inr (find (\<lambda>article. raCanonicalUrl article = JStr url) articles))"

definition buildArticleData :: "devto_io \<Rightarrow> string \<Rightarrow> frontmatter \<Rightarrow> string \<Rightarrow> bool \<Rightarrow> article_data" where
  "buildArticleData io postId fm body publish =
     (let markdownBody = convertMdxToMarkdown io body postId;
          mainImage =
            (if truthy (fm ''image'') then convertImagePathToUrl (fm ''image'') postId
             else Some (GITHUB_RAW_BASE_URL @ DEFAULT_BANNER_URL))
      in \<lparr>adTitle = fm ''title'',
          adBodyMarkdown = markdownBody,
          adTags = sanitizeTags (fm ''tags''),
          adPublished = publish,
          adCanonicalUrl = originalSiteUrl io @ ''/blog/'' @ postId,
          adDescription = (if truthy (fm ''description'') then fm ''description'' else JStr []),
          adMainImage = (if truthyStr mainImage then mainImage else None)\<rparr>)"

definition recordResult ::
  "devto_io \<Rightarrow> string \<Rightarrow> string \<Rightarrow> (string \<Rightarrow> meta_entry option) \<Rightarrow> remote_article
     \<Rightarrow> sync_result \<times> (string \<Rightarrow> meta_entry option)" where
  \<comment> \<open>the end of \<open>processPost\<close>: the metadata entry and the returned object\<close>
  "recordResult io postId canonical metadata result =
     (\<lparr>srSkipped = False, srId = postId, srDevtoId = raId result, srDevtoUrl = raUrl result,
       srPublished = raPublished result\<rparr>,
      metadata(postId \<mapsto>
        \<lparr>devtoId = raId result, devtoUrl = raUrl result, canonicalUrl = canonical,
         lastUpdated = nowIso io\<rparr>))"

definition createNew ::
  "devto_io \<Rightarrow> string \<Rightarrow> string \<Rightarrow> (string \<Rightarrow> meta_entry option) \<Rightarrow> article_data
     \<Rightarrow> string + (sync_result \<times> (string \<Rightarrow> meta_entry option))" where
  \<comment> \<open>\<open>result = await createArticle(articleData)\<close> and what follows it\<close>
  "createNew io postId canonical metadata articleData =
     (case createArticle io articleData of
        Inl e \<Rightarrow> Inl e
      | Inr None \<Rightarrow> Inl (typeErrorMessage io)
      | Inr (Some result) \<Rightarrow> Inr (recordResult io postId canonical metadata result))"

definition chooseArticleId :: "remote_article option \<Rightarrow> meta_entry option \<Rightarrow> jsval" where
  \<comment> \<open>\<open>existingArticle?.id || existingMetadata?.devtoId\<close>\<close>
  "chooseArticleId existingArticle existingMetadata =
     (let existingId = (case existingArticle of None \<Rightarrow> JUndefined | Some a \<Rightarrow> raId a)
      in if truthy existingId then existingId
         else (case existingMetadata of None \<Rightarrow> JUndefined | Some m \<Rightarrow> devtoId m))"

definition updateOrCreate ::
  "devto_io \<Rightarrow> string \<Rightarrow> string \<Rightarrow> (string \<Rightarrow> meta_entry option) \<Rightarrow> article_data \<Rightarrow> jsval
     \<Rightarrow> string + (sync_result \<times> (string \<Rightarrow> meta_entry option))" where
  \<comment> \<open>\<open>if (articleId) { try { update } catch { create } } else { create }\<close>; reading
      \<open>result.url\<close> of a response that is no object throws inside the \<open>try\<close> as well\<close>
  "updateOrCreate io postId canonical metadata articleData articleId =
     (if truthy articleId then
        (case updateArticle io articleId articleData of
           Inl e \<Rightarrow> createNew io postId canonical metadata articleData
         | Inr None \<Rightarrow> createNew io postId canonical metadata articleData
         | Inr (Some result) \<Rightarrow> Inr (recordResult io postId canonical metadata result))
      else createNew io postId canonical metadata articleData)"

definition processPost ::
  "devto_io \<Rightarrow> string \<Rightarrow> string \<Rightarrow> (string \<Rightarrow> meta_entry option) \<Rightarrow> bool
     \<Rightarrow> string + (sync_result \<times> (string \<Rightarrow> meta_entry option))" where
  \<comment> \<open>\<open>Inl\<close> is the error thrown on; the metadata object is returned updated\<close>
  "processPost io postId postPath metadata publish =
     (case readPost io postPath of
        Inl e \<Rightarrow> Inl e
      | Inr content \<Rightarrow>
          (case matterParse io content of
             Inl e \<Rightarrow> Inl e
           | Inr (fm, body) \<Rightarrow>
               (let articleData = buildArticleData io postId fm body publish;
                    canonical = originalSiteUrl io @ ''/blog/'' @ postId
                in case getArticleByCanonicalUrl io canonical of
                     Inl e \<Rightarrow> Inl e
                   | Inr existingArticle \<Rightarrow>
                       updateOrCreate io postId canonical metadata articleData
                         (chooseArticleId existingArticle (metadata postId)))))"

section \<open>Frontmatter codec\<close>

text \<open>
  \<open>parseFrontmatter\<close> and \<open>formatFrontmatter\<close> of the import utilities. A field is a
  string or an array of strings; the formatter takes the fields in the order of
  \<open>Object.entries\<close>. The parser builds an object that starts as \<open>{}\<close>, modelled as
  the map of its own properties, which is what \<open>Object.entries\<close> lists.
\<close>

datatype fmvalue = FmString string | FmArray "string list"

definition NL :: char where
  "NL = CHR 0x0A"

definition DQ :: char where
  "DQ = CHR 0x22"

definition SQ :: char where
  "SQ = CHR 0x27"

definition endsWith :: "string \<Rightarrow> string \<Rightarrow> bool" where
  "endsWith s p \<longleftrightarrow> isSuffixOf p s"

fun splitOn :: "char \<Rightarrow> string \<Rightarrow> string list" where
  \<comment> \<open>\<open>s.split(sep)\<close> for a separator of one character\<close>
  "splitOn sep [] = [[]]"
| "splitOn sep (c # cs) =
     (if c = sep then [] # splitOn sep cs
      else (case splitOn sep cs of [] \<Rightarrow> [[c]] | l # ls \<Rightarrow> (c # l) # ls))"

fun indexOf :: "char \<Rightarrow> string \<Rightarrow> nat option" where
  \<comment> \<open>\<open>s.indexOf(c)\<close>, with \<open>None\<close> for -1\<close>
  "indexOf x [] = None"
| "indexOf x (c # cs) = (if c = x then Some 0 else map_option Suc (indexOf x cs))"

definition slice1 :: "string \<Rightarrow> string" where
  \<comment> \<open>\<open>s.slice(1, -1)\<close>\<close>
  "slice1 s = butlast (tl s)"

definition quoted :: "string \<Rightarrow> bool" where
  "quoted v \<longleftrightarrow>
     (startsWith v [DQ] \<and> endsWith v [DQ]) \<or> (startsWith v [SQ] \<and> endsWith v [SQ])"

definition unquote :: "string \<Rightarrow> string" where
  \<comment> \<open>the step commented \<open>remove quotes\<close>\<close>
  "unquote v = (if quoted v then slice1 v else v)"

definition stripQuote :: "string \<Rightarrow> string" where
  \<comment> \<open>\<open>.replace(/^["']|["']$/g, "")\<close>: one quote character off the start, and one off the
      end of what is left\<close>
  "stripQuote item =
     (let s1 = (case item of [] \<Rightarrow> [] | c # cs \<Rightarrow> if c = DQ \<or> c = SQ then cs else c # cs)
      in if s1 \<noteq> [] \<and> (last s1 = DQ \<or> last s1 = SQ) then butlast s1 else s1)"

definition parseInline :: "string \<Rightarrow> string list" where
  \<comment> \<open>the items of an inline array \<open>[a, b]\<close>\<close>
  "parseInline v =
     (let arrayContent = trim (slice1 v)
      in if arrayContent \<noteq> []
         then map (\<lambda>item. stripQuote (trim item)) (splitOn CHR '','' arrayContent)
         else [])"

definition isListLine :: "string \<Rightarrow> bool" where
  "isListLine l \<longleftrightarrow> startsWith (trim l) ''-''"

definition listItem :: "string \<Rightarrow> string" where
  \<comment> \<open>one line of a YAML list\<close>
  "listItem l = unquote (trim (drop 1 (trim l)))"

definition assignField ::
  "(string \<rightharpoonup> fmvalue) \<Rightarrow> string \<Rightarrow> fmvalue \<Rightarrow> (string \<rightharpoonup> fmvalue)" where
  \<comment> \<open>\<open>frontmatter[key] = value\<close> on an object created as \<open>{}\<close>: the key \<open>__proto__\<close>
      reaches the setter inherited from \<open>Object.prototype\<close>, which stores no own property
      (a string is ignored, an array becomes the prototype); every other key becomes an
      own property\<close>
  "assignField fm key v = (if key = ''__proto__'' then fm else fm(key \<mapsto> v))"

function parseLines :: "string list \<Rightarrow> (string \<rightharpoonup> fmvalue) \<Rightarrow> (string \<rightharpoonup> fmvalue)" where
  \<comment> \<open>the \<open>while\<close> loop over the lines, from line \<open>i\<close> on\<close>
  "parseLines [] fm = fm"
| "parseLines (line # rest) fm =
     (let trimmed = trim line
      in if trimmed = [] \<or> startsWith trimmed ''#'' then parseLines rest fm
         else
           (case indexOf CHR '':'' trimmed of
              None \<Rightarrow> parseLines rest fm
            | Some colonIndex \<Rightarrow>
                (let key = trim (take colonIndex trimmed);
                     v = trim (drop (colonIndex + 1) trimmed)
                 in if rest \<noteq> [] \<and> isListLine (hd rest)
                    then parseLines (dropWhile isListLine rest)
                           (assignField fm key
                              (FmArray (map listItem (takeWhile isListLine rest))))
                    else
                      (let v' = unquote v
                       in if startsWith v' ''['' \<and> endsWith v' '']''
                          then parseLines rest (assignField fm key (FmArray (parseInline v')))
                          else parseLines rest (assignField fm key (FmString v'))))))"
  by pat_completeness auto
termination
  by (relation "measure (\<lambda>(ls, fm). length ls)")
     (auto simp: less_Suc_eq_le length_dropWhile_le)

text \<open>
  The pattern \<open>/^---\s*\n([\s\S]*?)\n---\s*\n([\s\S]*)$/\<close>, matched by hand. A greedy
  \<open>\s*\<close> followed by \<open>\n\<close> ends at a line feed of the whitespace run it stands on, the
  last one first; the lazy group ends at the first place where the rest of the pattern
  matches.
\<close>

fun afterLineFeeds :: "string \<Rightarrow> string list" where
  \<comment> \<open>for each line feed of the leading whitespace run, what follows it, first to last\<close>
  "afterLineFeeds [] = []"
| "afterLineFeeds (c # cs) =
     (if isSpace c then (if c = NL then [cs] else []) @ afterLineFeeds cs else [])"

definition closeMarker :: "string \<Rightarrow> string option" where
  \<comment> \<open>\<open>\n---\s*\n([\s\S]*)$\<close> at the start of \<open>s\<close>: the second group\<close>
  "closeMarker s =
     (if startsWith s (NL # ''---'')
      then (case rev (afterLineFeeds (drop 4 s)) of [] \<Rightarrow> None | body # _ \<Rightarrow> Some body)
      else None)"

fun findClose :: "string \<Rightarrow> string \<Rightarrow> (string \<times> string) option" where
  \<comment> \<open>the lazy first group and the rest of the pattern\<close>
  "findClose acc [] =
     (case closeMarker [] of Some body \<Rightarrow> Some (rev acc, body) | None \<Rightarrow> None)"
| "findClose acc (c # cs) =
     (case closeMarker (c # cs) of
        Some body \<Rightarrow> Some (rev acc, body)
      | None \<Rightarrow> findClose (c # acc) cs)"

fun firstMatch :: "string list \<Rightarrow> (string \<times> string) option" where
  \<comment> \<open>the first alternative of the backtracking that matches\<close>
  "firstMatch [] = None"
| "firstMatch (t # ts) =
     (case findClose [] t of Some m \<Rightarrow> Some m | None \<Rightarrow> firstMatch ts)"

definition matchFrontmatter :: "string \<Rightarrow> (string \<times> string) option" where
  \<comment> \<open>\<open>content.match(frontmatterRegex)\<close>: the two groups\<close>
  "matchFrontmatter content =
     (if startsWith content ''---'' then firstMatch (rev (afterLineFeeds (drop 3 content)))
      else None)"

definition parseFrontmatter :: "string \<Rightarrow> (string \<rightharpoonup> fmvalue) \<times> string" where
  \<comment> \<open>the pair of \<open>frontmatter\<close> and \<open>body\<close>\<close>
  "parseFrontmatter content =
     (case matchFrontmatter content of
        None \<Rightarrow> (Map.empty, content)
      | Some (frontmatterText, body) \<Rightarrow>
          (parseLines (splitOn NL frontmatterText) Map.empty, body))"

definition formatLine :: "string \<times> fmvalue \<Rightarrow> string" where
  \<comment> \<open>the line pushed for one entry\<close>
  "formatLine entry =
     (case entry of
        (key, FmArray vs) \<Rightarrow>
          key @ '': ['' @ joinWith '', '' (map (\<lambda>v. [SQ] @ v @ [SQ]) vs) @ '']''
      | (key, FmString s) \<Rightarrow>
          (if CHR '':'' \<in> set s then key @ '': '' @ [SQ] @ s @ [SQ] else key @ '': '' @ s))"

definition formatFrontmatter :: "(string \<times> fmvalue) list \<Rightarrow> string" where
  "formatFrontmatter fm = joinWith [NL] ([''---''] @ map formatLine fm @ [''---''])"

definition serialize :: "(string \<times> fmvalue) list \<Rightarrow> string \<Rightarrow> string" where
  \<comment> \<open>Modelled from the spec: \<open>serialize(fields, body)\<close>. The source has the formatter of
      the block only; the block is followed by a line feed, without which the parser's
      pattern cannot match, and by the body.\<close>
  "serialize fm body = formatFrontmatter fm @ [NL] @ body"

text \<open>
  The fields and bodies on which the codec is shown to round-trip: what the formatter
  writes for them is read back by the parser as it was meant.
\<close>

definition safeKey :: "string \<Rightarrow> bool" where
  \<comment> \<open>a key on one line (the empty key included), without a colon and without
      whitespace at either end, that does not start a comment and is not \<open>__proto__\<close>\<close>
  "safeKey k \<longleftrightarrow>
     trim k = k \<and> NL \<notin> set k \<and> CHR '':'' \<notin> set k
     \<and> \<not> startsWith k ''#'' \<and> k \<noteq> ''__proto__''"

definition laterKey :: "string \<Rightarrow> bool" where
  \<comment> \<open>a key whose line, coming after the line of another field, is not taken for a
      list item of that field\<close>
  "laterKey k \<longleftrightarrow> \<not> startsWith k ''-''"

definition safeScalar :: "string \<Rightarrow> bool" where
  \<comment> \<open>one line, not wrapped in brackets and, unless it holds a colon (which makes the
      formatter quote it), without whitespace at either end and not wrapped in quotes\<close>
  "safeScalar v \<longleftrightarrow>
     NL \<notin> set v \<and> \<not> (startsWith v ''['' \<and> endsWith v '']'')
     \<and> (CHR '':'' \<in> set v \<or> (trim v = v \<and> \<not> quoted v))"

definition safeItem :: "string \<Rightarrow> bool" where
  \<comment> \<open>one line without a comma\<close>
  "safeItem v \<longleftrightarrow> NL \<notin> set v \<and> CHR '','' \<notin> set v"

fun safeValue :: "fmvalue \<Rightarrow> bool" where
  "safeValue (FmString v) = safeScalar v"
| "safeValue (FmArray vs) = list_all safeItem vs"

definition safeEntry :: "string \<times> fmvalue \<Rightarrow> bool" where
  "safeEntry entry \<longleftrightarrow> safeKey (fst entry) \<and> safeValue (snd entry)"

definition safeFields :: "(string \<times> fmvalue) list \<Rightarrow> bool" where
  \<comment> \<open>at least one entry, no key twice, no key after the first that starts with a
      hyphen\<close>
  "safeFields fm \<longleftrightarrow>
     fm \<noteq> [] \<and> distinct (map fst fm) \<and> list_all safeEntry fm
     \<and> list_all (\<lambda>entry. laterKey (fst entry)) (tl fm)"

definition safeBody :: "string \<Rightarrow> bool" where
  \<comment> \<open>no line feed in the whitespace the body starts with\<close>
  "safeBody body \<longleftrightarrow> NL \<notin> set (takeWhile isSpace body)"

section \<open>Example inputs\<close>

definition draftNote :: frontmatter where
  \<comment> \<open>a draft whose date is not a date\<close>
  "draftNote = (\<lambda>k. JUndefined)(''is_draft'' := JBool True, ''date'' := JStr ''not a date'')"

definition draftIo :: note_io where
  "draftIo = \<lparr>pathJoin = (\<lambda>a b. a @ ''/'' @ b),
              readNoteFile = (\<lambda>p. Inr (draftNote, ''text'')),
              ensureDir = (\<lambda>d. None),
              processImagesIO = (\<lambda>b s d. Inr (b, [])),
              buildMdxContent = (\<lambda>b fm. Inr b),
              writeFile = (\<lambda>p c. None)\<rparr>"

definition strictEnv :: js_env where
  \<comment> \<open>an environment in which no value is a valid date\<close>
  "strictEnv = \<lparr>dateValid = (\<lambda>v. False), toStr = (\<lambda>v. ''?'')\<rparr>"

definition exampleConfig :: config where
  "exampleConfig = \<lparr>sourceMarkdownDir = ''vault'', sourceAttachmentDir = ''att'', targetDir = ''out''\<rparr>"



definition listedArticle :: remote_article where
  "listedArticle = \<lparr>raId = JNum 7, raUrl = JStr ''https://dev.to/a'', raPublished = JBool False,
                    raCanonicalUrl = JStr ''https://site/blog/first''\<rparr>"

definition createdArticle :: remote_article where
  "createdArticle = \<lparr>raId = JNum 8, raUrl = JStr ''https://dev.to/b'', raPublished = JBool False,
                     raCanonicalUrl = JStr ''https://site/blog/first''\<rparr>"

definition titledNote :: frontmatter where
  "titledNote = (\<lambda>k. JUndefined)(''title'' := JStr ''T'')"

definition brokenUpdateIo :: devto_io where
  \<comment> \<open>a service that lists one article of the post, fails every update and accepts creation\<close>
  "brokenUpdateIo =
     \<lparr>originalSiteUrl = ''https://site'',
      readPost = (\<lambda>p. Inr ''raw''),
      matterParse = (\<lambda>c. Inr (titledNote, ''body'')),
      convertMdxToMarkdown = (\<lambda>b i. b),
      getAllDevToArticles = Inr [listedArticle],
      updateArticle = (\<lambda>i d. Inl ''API request failed: 500''),
      createArticle = (\<lambda>d. Inr (Some createdArticle)),
      nowIso = ''2024-01-01T00:00:00.000Z'',
      typeErrorMessage = ''Cannot read properties of null''\<rparr>"

definition taggedNote :: frontmatter where
  "taggedNote =
     (\<lambda>k. JUndefined)(''tags'' := JArr [JStr ''#astro'', JStr ''web''], ''authors'' := JStr ''me'')"

definition twoImages :: string where
  "twoImages = ''x ![[a.png]] y ![[b.png]]''"

definition halfIo :: image_io where
  \<comment> \<open>only \<open>b.png\<close> is among the attachments; every copy succeeds\<close>
  "halfIo = \<lparr>fsJoin = (\<lambda>a b. a @ ''/'' @ b),
             fsPathExists = (\<lambda>p. p = ''att/b.png''),
             fsCopy = (\<lambda>a b. None),
             fsEnsureDir = (\<lambda>d. None)\<rparr>"

definition fullDiskIo :: image_io where
  \<comment> \<open>every attachment is there and every copy fails\<close>
  "fullDiskIo = \<lparr>fsJoin = (\<lambda>a b. a @ ''/'' @ b),
                 fsPathExists = (\<lambda>p. True),
                 fsCopy = (\<lambda>a b. Some ''ENOSPC''),
                 fsEnsureDir = (\<lambda>d. None)\<rparr>"

definition plainIo :: image_io where
  \<comment> \<open>every attachment is there and every copy succeeds\<close>
  "plainIo = \<lparr>fsJoin = (\<lambda>a b. a @ ''/'' @ b),
              fsPathExists = (\<lambda>p. True),
              fsCopy = (\<lambda>a b. None),
              fsEnsureDir = (\<lambda>d. None)\<rparr>"

definition readyNote :: frontmatter where
  \<comment> \<open>a note that is neither skipped nor rejected\<close>
  "readyNote =
     (\<lambda>k. JUndefined)(''description'' := JStr ''two pictures'', ''date'' := JStr ''2024-01-01'')"

definition lenientEnv :: js_env where
  \<comment> \<open>an environment in which every value is a valid date\<close>
  "lenientEnv = \<lparr>dateValid = (\<lambda>v. True), toStr = (\<lambda>v. ''?'')\<rparr>"

definition readyIo :: note_io where
  \<comment> \<open>every note reads as \<open>readyNote\<close> with the body \<open>twoImages\<close>, and can be built and
      written\<close>
  "readyIo = \<lparr>pathJoin = (\<lambda>a b. a @ ''/'' @ b),
              readNoteFile = (\<lambda>p. Inr (readyNote, twoImages)),
              ensureDir = (\<lambda>d. None),
              processImagesIO = (\<lambda>b s d. Inr (b, [])),
              buildMdxContent = (\<lambda>b fm. Inr b),
              writeFile = (\<lambda>p c. None)\<rparr>"

section \<open>Facts about the character classes\<close>

lemma isLowerAlnum_not_isSpace: "isLowerAlnum c \<Longrightarrow> \<not> isSpace c"
  by (auto simp: isLowerAlnum_def isSpace_def Let_def)

lemma trim_no_space: "\<forall>c\<in>set s. \<not> isSpace c \<Longrightarrow> trim s = s"
proof -
  assume a: "\<forall>c\<in>set s. \<not> isSpace c"
  have 1: "dropWhile isSpace s = s"
    using a by (cases s) auto
  have 2: "dropWhile isSpace (rev s) = rev s"
    using a by (cases "rev s") (auto simp: rev_eq_Cons_iff)
  show ?thesis by (simp add: trim_def 1 2)
qed

lemma trim_filter_alnum: "trim (filter isLowerAlnum s) = filter isLowerAlnum s"
  by (rule trim_no_space) (auto dest: isLowerAlnum_not_isSpace)

section \<open>Tag sanitizer: results\<close>

lemma sanitizeTag_string: "sanitizeTag (JStr s) = Some (spec_clean_tag s)"
proof -
  have "(\<lambda>c. \<not> (c = CHR ''-'' \<or> c = CHR ''_'' \<or> isSpace c))
        = (\<lambda>c. c \<noteq> CHR ''-'' \<and> c \<noteq> CHR ''_'' \<and> \<not> isSpace c)"
    by auto
  then show ?thesis
    by (simp add: sanitizeTag_def spec_clean_tag_def trim_filter_alnum)
qed

lemma keepTag_simps: "keepTag None = False" "keepTag (Some s) = (s \<noteq> [])"
  by (simp_all add: keepTag_def)

lemma sanitizeTag_other: "\<not> isString t \<Longrightarrow> sanitizeTag t = None"
  by (cases t) (simp_all add: sanitizeTag_def)

lemma kept_tags_eq:
  "map the (filter keepTag (map sanitizeTag ts))
   = filter (\<lambda>s. s \<noteq> []) (map spec_clean_tag (string_entries ts))"
proof (induction ts rule: string_entries.induct)
  case 1
  show ?case by simp
next
  case (2 s ts)
  then show ?case by (simp add: sanitizeTag_string keepTag_simps)
qed (simp_all add: sanitizeTag_other keepTag_simps)

lemma sanitizeTags_spec: "sanitizeTags (JArr ts) = spec_sanitize_tags ts"
  by (simp add: sanitizeTags_def spec_sanitize_tags_def take_map [symmetric] kept_tags_eq)

lemma spec_sanitize_tags_members:
  "t \<in> set (spec_sanitize_tags ts) \<Longrightarrow> t \<noteq> [] \<and> (\<forall>c\<in>set t. isLowerAlnum c)"
proof -
  assume "t \<in> set (spec_sanitize_tags ts)"
  then have "t \<in> set (filter (\<lambda>s. s \<noteq> []) (map spec_clean_tag (string_entries ts)))"
    unfolding spec_sanitize_tags_def by (rule in_set_takeD)
  then show ?thesis by (auto simp: spec_clean_tag_def)
qed

text \<open>
  C8. For every tag list the sanitizer of the cross-poster returns what the specification
  describes: each string tag loses its hyphens, underscores and whitespace, is lower-cased
  and loses every remaining character outside \<open>[a-z0-9]\<close>; empty results and non-string
  entries are dropped; the first four tags are kept and the rest silently dropped. Every
  returned tag is non-empty and made of \<open>[a-z0-9]\<close> only, there are at most four, and
  anything that is not an array gives the empty list.
\<close>

theorem sanitizeTags_ok:
  "sanitizeTags (JArr ts) = spec_sanitize_tags ts
   \<and> length (sanitizeTags tags) \<le> 4
   \<and> (\<forall>t\<in>set (sanitizeTags (JArr ts)). t \<noteq> [] \<and> (\<forall>c\<in>set t. isLowerAlnum c))
   \<and> (\<not> isArray tags \<longrightarrow> sanitizeTags tags = [])"
proof -
  have "length (sanitizeTags tags) \<le> 4"
    by (cases tags) (simp_all add: sanitizeTags_def)
  moreover have "\<not> isArray tags \<longrightarrow> sanitizeTags tags = []"
    by (cases tags) (simp_all add: sanitizeTags_def)
  ultimately show ?thesis
    using spec_sanitize_tags_members [of _ ts] by (simp add: sanitizeTags_spec)
qed

lemma sanitizeTags_example:
  "spec_sanitize_tags [JStr ''My-Tag'', JStr ''c++'', JStr '''', JStr ''a b'', JStr ''tag5'', JStr ''tag6'']
     = [''mytag'', ''c'', ''ab'', ''tag5'']"
  by code_simp

theorem sanitizeTags_ok_witness:
  "sanitizeTags (JArr [JStr ''My-Tag'', JStr ''c++'', JStr '''', JStr ''a b'', JStr ''tag5'', JStr ''tag6''])
     = [''mytag'', ''c'', ''ab'', ''tag5'']
   \<and> length (sanitizeTags (JArr [JStr ''My-Tag'', JStr ''c++'', JStr '''', JStr ''a b'', JStr ''tag5'', JStr ''tag6''])) \<le> 4
   \<and> \<not> isArray (JStr ''tag'') \<and> sanitizeTags (JStr ''tag'') = []"
  using sanitizeTags_ok [of "[JStr ''My-Tag'', JStr ''c++'', JStr '''', JStr ''a b'', JStr ''tag5'', JStr ''tag6'']"
      "JArr [JStr ''My-Tag'', JStr ''c++'', JStr '''', JStr ''a b'', JStr ''tag5'', JStr ''tag6'']"]
    sanitizeTags_ok [of "[]" "JStr ''tag''"]
  by (simp add: sanitizeTags_example)

section \<open>Facts about paths\<close>


lemma lastSegment_no_slash: "c \<in> set (lastSegment p) \<Longrightarrow> \<not> isSlash c"
  by (auto simp: lastSegment_def dest: set_takeWhileD)

lemma lastSegment_nonempty: "\<exists>c\<in>set p. \<not> isSlash c \<Longrightarrow> lastSegment p \<noteq> []"
proof -
  assume "\<exists>c\<in>set p. \<not> isSlash c"
  then have "dropWhile isSlash (rev p) \<noteq> []" by auto
  then obtain x xs where d: "dropWhile isSlash (rev p) = x # xs"
    by (cases "dropWhile isSlash (rev p)") auto
  then have "\<not> isSlash x" using hd_dropWhile [of isSlash "rev p"] by auto
  with d show ?thesis by (simp add: lastSegment_def)
qed

lemma lastSegment_length: "length (lastSegment p) \<le> length p"
proof -
  have "length (takeWhile (\<lambda>c. \<not> isSlash c) (dropWhile isSlash (rev p)))
        \<le> length (dropWhile isSlash (rev p))"
    by (rule length_takeWhile_le)
  also have "\<dots> \<le> length (rev p)" by (rule length_dropWhile_le)
  finally show ?thesis by (simp add: lastSegment_def)
qed

lemma lastSegment_id: "\<forall>c\<in>set s. \<not> isSlash c \<Longrightarrow> lastSegment s = s"
proof -
  assume a: "\<forall>c\<in>set s. \<not> isSlash c"
  have 1: "dropWhile isSlash (rev s) = rev s"
    using a by (cases "rev s") (auto simp: rev_eq_Cons_iff)
  have 2: "takeWhile (\<lambda>c. \<not> isSlash c) (rev s) = rev s"
    using a by (simp add: takeWhile_eq_all_conv)
  show ?thesis by (simp add: lastSegment_def 1 2)
qed

lemma stem_lastDotPart: "CHR ''.'' \<in> set seg \<Longrightarrow> stem seg @ lastDotPart seg = seg"
proof -
  assume a: "CHR ''.'' \<in> set seg"
  let ?P = "\<lambda>c. \<not> isDot c"
  have "dropWhile ?P (rev seg) \<noteq> []"
    using a by (auto simp: isDot_def)
  then obtain x xs where d: "dropWhile ?P (rev seg) = x # xs"
    by (cases "dropWhile ?P (rev seg)") auto
  then have "isDot x" using hd_dropWhile [of ?P "rev seg"] by auto
  then have x: "x = CHR ''.''" by (simp add: isDot_def)
  have "rev seg = takeWhile ?P (rev seg) @ dropWhile ?P (rev seg)" by simp
  then have "rev seg = takeWhile ?P (rev seg) @ CHR ''.'' # xs" using d x by simp
  then have "seg = rev (takeWhile ?P (rev seg) @ CHR ''.'' # xs)" by (metis rev_rev_ident)
  then have "seg = rev xs @ CHR ''.'' # rev (takeWhile ?P (rev seg))" by simp
  moreover have "stem seg = rev xs" using d by (simp add: stem_def)
  ultimately show ?thesis by (simp add: lastDotPart_def)
qed

lemma stem_append_dot:
  assumes "\<forall>c\<in>set e. \<not> isDot c"
  shows "stem (b @ CHR ''.'' # e) = b"
proof -
  have "dropWhile (\<lambda>c. \<not> isDot c) (rev e @ CHR ''.'' # rev b) = CHR ''.'' # rev b"
    using assms by (subst dropWhile_append2) (auto simp: isDot_def)
  then show ?thesis by (simp add: stem_def)
qed

lemma lastDotPart_append_dot:
  assumes "\<forall>c\<in>set e. \<not> isDot c"
  shows "lastDotPart (b @ CHR ''.'' # e) = CHR ''.'' # e"
proof -
  have "takeWhile (\<lambda>c. \<not> isDot c) (rev e @ CHR ''.'' # rev b) = rev e"
    using assms by (subst takeWhile_append2) (auto simp: isDot_def)
  then show ?thesis by (simp add: lastDotPart_def)
qed

lemma lastDotPart_tail_no_dot: "c \<in> set (tl (lastDotPart seg)) \<Longrightarrow> \<not> isDot c"
  by (auto simp: lastDotPart_def dest: set_takeWhileD)

lemma basename2_extname:
  "basename2 p (extname p) = (if extname p = [] then lastSegment p else stem (lastSegment p))"
proof (cases "extname p = []")
  case True
  then show ?thesis by (simp add: basename2_def)
next
  case False
  let ?seg = "lastSegment p"
  from False have dot: "CHR ''.'' \<in> set ?seg" and st: "stem ?seg \<noteq> []"
    and ext: "extname p = lastDotPart ?seg"
    by (auto simp: extname_def Let_def split: if_splits)
  have split: "stem ?seg @ lastDotPart ?seg = ?seg" using dot by (rule stem_lastDotPart)
  have len: "length ?seg = length (stem ?seg) + length (lastDotPart ?seg)"
    using split by (metis length_append)
  have suf: "isSuffixOf (lastDotPart ?seg) ?seg"
    using split len by (simp add: isSuffixOf_def) (metis append_eq_conv_conj)
  have ne: "?seg \<noteq> lastDotPart ?seg" using len st by auto
  have lp: "length (lastDotPart ?seg) \<le> length p"
    using len lastSegment_length [of p] by simp
  have np: "lastDotPart ?seg \<noteq> p"
  proof
    assume e: "lastDotPart ?seg = p"
    have "\<forall>c\<in>set p. \<not> isSlash c"
    proof
      fix c assume "c \<in> set p"
      then have "c \<in> set (lastDotPart ?seg)" using e by simp
      then have "c \<in> set ?seg" using split by (metis Un_iff set_append)
      then show "\<not> isSlash c" by (rule lastSegment_no_slash)
    qed
    then have "?seg = p" by (rule lastSegment_id)
    with e ne show False by simp
  qed
  have tk: "take (length ?seg - length (lastDotPart ?seg)) ?seg = stem ?seg"
    using split len by (metis add_diff_cancel_right' append_eq_conv_conj)
  have "lastDotPart ?seg \<noteq> []" by (simp add: lastDotPart_def)
  then show ?thesis
    using False ext suf ne lp np tk by (simp add: basename2_def Let_def)
qed

lemma getBasename_nonempty: "\<exists>c\<in>set p. \<not> isSlash c \<Longrightarrow> getBasename p \<noteq> []"
proof -
  assume a: "\<exists>c\<in>set p. \<not> isSlash c"
  then have s: "lastSegment p \<noteq> []" by (rule lastSegment_nonempty)
  show ?thesis
  proof (cases "extname p = []")
    case True
    then show ?thesis using s unfolding getBasename_def basename2_extname by simp
  next
    case False
    then have "stem (lastSegment p) \<noteq> []"
      by (auto simp: extname_def Let_def split: if_splits)
    then show ?thesis using False unfolding getBasename_def basename2_extname by simp
  qed
qed


section \<open>Validation gate: skip before reject\<close>


lemma getSkipReason_truthy:
  "fm ''can_skip'' = JBool True \<or> fm ''can_skip'' = JStr ''true''
     \<or> fm ''is_draft'' = JBool True \<or> fm ''is_draft'' = JStr ''true''
   \<Longrightarrow> truthyStr (getSkipReason fm)"
  by (auto simp: getSkipReason_def truthyStr_def)

text \<open>
  C1. When the frontmatter read from a note has \<open>can_skip\<close> or \<open>is_draft\<close> equal to
  \<open>true\<close> or to the string \<open>"true"\<close>, \<open>processNote\<close> returns the skipped result with
  the skip reason at once, whatever the other fields hold: validation, which would reject
  a missing or invalid date, is not consulted, and the result is never an error.
\<close>

theorem processNote_skip_first:
  assumes "readNoteFile io filePath = Inr (fm, body)"
    and "fm ''can_skip'' = JBool True \<or> fm ''can_skip'' = JStr ''true''
         \<or> fm ''is_draft'' = JBool True \<or> fm ''is_draft'' = JStr ''true''"
  shows "processNote env io filePath cfg
         = \<lparr>status = Skipped, filename = basename1 filePath, message = getSkipReason fm,
            slug = None\<rparr>
         \<and> status (processNote env io filePath cfg) \<noteq> Error
         \<and> (getSkipReason fm = Some ''can_skip property is set to true''
            \<or> getSkipReason fm = Some ''post is marked as draft'')"
proof -
  have t: "truthyStr (getSkipReason fm)"
    using assms(2) by (rule getSkipReason_truthy)
  have r: "processNote env io filePath cfg
         = \<lparr>status = Skipped, filename = basename1 filePath, message = getSkipReason fm,
            slug = None\<rparr>"
    using assms(1) t by (simp add: processNote_def Let_def)
  have m: "getSkipReason fm = Some ''can_skip property is set to true''
            \<or> getSkipReason fm = Some ''post is marked as draft''"
    using assms(2) by (auto simp: getSkipReason_def)
  show ?thesis using r m by simp
qed

theorem processNote_skip_first_witness:
  "readNoteFile draftIo ''vault/a.md'' = Inr (draftNote, ''text'')
   \<and> draftNote ''is_draft'' = JBool True
   \<and> validateFrontmatter strictEnv draftNote \<noteq> None
   \<and> status (processNote strictEnv draftIo ''vault/a.md'' exampleConfig) = Skipped"
proof -
  have r: "readNoteFile draftIo ''vault/a.md'' = Inr (draftNote, ''text'')"
    by (simp add: draftIo_def)
  have d: "draftNote ''is_draft'' = JBool True"
    by (simp add: draftNote_def)
  have v: "validateFrontmatter strictEnv draftNote \<noteq> None"
    by (simp add: validateFrontmatter_def draftNote_def strictEnv_def)
  from processNote_skip_first [OF r, of strictEnv "exampleConfig"] d
  show ?thesis using r v by simp
qed

section \<open>Frontmatter normalization: results\<close>


lemma normalizeArray_isArray: "isArray (normalizeArray v)"
  by (cases v) (simp_all add: normalizeArray_def)

lemma normalizeArray_cases:
  "normalizeArray v =
     (case v of JArr xs \<Rightarrow> JArr xs
      | JStr s \<Rightarrow> if s \<noteq> [] then JArr [JStr s] else JArr []
      | _ \<Rightarrow> JArr [])"
  by (cases v) (simp_all add: normalizeArray_def)

lemma isString_stripHash: "isString (stripHash t) = isString t"
  by (cases t) (simp_all add: stripHash_def)

lemma processFrontmatter_tags:
  "processFrontmatter fm file g ''tags'' = JArr (map stripHash (elements (normalizeArray (fm ''tags''))))"
  by (cases "fm ''tags''") (simp_all add: processFrontmatter_def Let_def normalizeArray_def)

lemma processFrontmatter_authors:
  "processFrontmatter fm file g ''authors'' = normalizeArray (fm ''authors'')"
proof -
  have "\<exists>xs. normalizeArray (fm ''tags'') = JArr xs"
    using normalizeArray_isArray [of "fm ''tags''"] by (cases "normalizeArray (fm ''tags'')") simp_all
  then obtain xs where "normalizeArray (fm ''tags'') = JArr xs" ..
  then show ?thesis
    by (simp add: processFrontmatter_def Let_def)
qed

lemma processFrontmatter_title:
  "processFrontmatter fm file g ''title''
   = (if titleUnusable (fm ''title'') then JStr (g file) else fm ''title'')"
proof -
  have "\<exists>xs. normalizeArray (fm ''tags'') = JArr xs"
    using normalizeArray_isArray [of "fm ''tags''"] by (cases "normalizeArray (fm ''tags'')") simp_all
  then obtain xs where "normalizeArray (fm ''tags'') = JArr xs" ..
  then show ?thesis
    by (simp add: processFrontmatter_def Let_def)
qed

text \<open>
  C2, as stated, fails: a scalar need not become a one-element array, and an array need
  not hold strings. The number 2024 as \<open>tags\<close> and the empty string as \<open>authors\<close> both
  become the empty array, and the array \<open>[2024]\<close> stays an array of a number.
\<close>

theorem processFrontmatter_scalar_counterexample:
  "processFrontmatter ((\<lambda>k. JUndefined)(''tags'' := JNum 2024, ''authors'' := JStr [])) ''note.md'' getBasename ''tags'' = JArr []
   \<and> processFrontmatter ((\<lambda>k. JUndefined)(''tags'' := JNum 2024, ''authors'' := JStr [])) ''note.md'' getBasename ''authors'' = JArr []
   \<and> processFrontmatter ((\<lambda>k. JUndefined)(''tags'' := JArr [JNum 2024])) ''note.md'' getBasename ''tags'' = JArr [JNum 2024]"
  by (simp add: processFrontmatter_tags processFrontmatter_authors normalizeArray_def stripHash_def)

text \<open>
  C2, amended. After \<open>processFrontmatter\<close> both \<open>tags\<close> and \<open>authors\<close> are arrays, never
  a scalar and never absent: an array is kept (each string tag losing one leading \<open>#\<close>), a
  non-empty string becomes a one-element array, and every other value (missing, null, the
  empty string, a number, a boolean, an object) becomes the empty array. The elements are
  strings whenever the elements of the input array are.
\<close>

theorem processFrontmatter_arrays:
  "isArray (processFrontmatter fm file g ''tags'')
   \<and> isArray (processFrontmatter fm file g ''authors'')
   \<and> processFrontmatter fm file g ''authors''
       = (case fm ''authors'' of
            JArr xs \<Rightarrow> JArr xs
          | JStr s \<Rightarrow> if s \<noteq> [] then JArr [JStr s] else JArr []
          | _ \<Rightarrow> JArr [])
   \<and> processFrontmatter fm file g ''tags''
       = (case fm ''tags'' of
            JArr xs \<Rightarrow> JArr (map stripHash xs)
          | JStr s \<Rightarrow> if s \<noteq> [] then JArr [stripHash (JStr s)] else JArr []
          | _ \<Rightarrow> JArr [])
   \<and> ((\<forall>x\<in>set (elements (fm ''tags'')). isString x)
        \<longrightarrow> (\<forall>x\<in>set (elements (processFrontmatter fm file g ''tags'')). isString x))
   \<and> ((\<forall>x\<in>set (elements (fm ''authors'')). isString x)
        \<longrightarrow> (\<forall>x\<in>set (elements (processFrontmatter fm file g ''authors'')). isString x))"
proof -
  have a: "processFrontmatter fm file g ''authors''
       = (case fm ''authors'' of
            JArr xs \<Rightarrow> JArr xs
          | JStr s \<Rightarrow> if s \<noteq> [] then JArr [JStr s] else JArr []
          | _ \<Rightarrow> JArr [])"
    by (simp add: processFrontmatter_authors normalizeArray_cases)
  have t: "processFrontmatter fm file g ''tags''
       = (case fm ''tags'' of
            JArr xs \<Rightarrow> JArr (map stripHash xs)
          | JStr s \<Rightarrow> if s \<noteq> [] then JArr [stripHash (JStr s)] else JArr []
          | _ \<Rightarrow> JArr [])"
    by (cases "fm ''tags''") (simp_all add: processFrontmatter_tags normalizeArray_cases)
  have ia: "isArray (processFrontmatter fm file g ''authors'')"
    by (simp add: processFrontmatter_authors normalizeArray_isArray)
  have it: "isArray (processFrontmatter fm file g ''tags'')"
    by (simp add: processFrontmatter_tags)
  have st: "(\<forall>x\<in>set (elements (fm ''tags'')). isString x)
        \<longrightarrow> (\<forall>x\<in>set (elements (processFrontmatter fm file g ''tags'')). isString x)"
    unfolding t by (cases "fm ''tags''") (auto simp: isString_stripHash)
  have sa: "(\<forall>x\<in>set (elements (fm ''authors'')). isString x)
        \<longrightarrow> (\<forall>x\<in>set (elements (processFrontmatter fm file g ''authors'')). isString x)"
    unfolding a by (cases "fm ''authors''") auto
  from ia it a t st sa show ?thesis by blast
qed

theorem processFrontmatter_arrays_witness:
  "list_all isString (elements (taggedNote ''tags''))
   \<and> processFrontmatter taggedNote ''note.md'' getBasename ''tags''
       = JArr [JStr ''astro'', JStr ''web'']
   \<and> processFrontmatter taggedNote ''note.md'' getBasename ''authors'' = JArr [JStr ''me'']
   \<and> list_all isString (elements (processFrontmatter taggedNote ''note.md'' getBasename ''tags''))"
  using processFrontmatter_arrays [of taggedNote "''note.md''" getBasename]
  by (simp add: taggedNote_def stripHash_def)

text \<open>
  C10. After \<open>processFrontmatter\<close> (called with the script's \<open>getBasename\<close>) the title is
  the basename of the file without its extension when the given title is absent, not a
  string or trims to the empty string, and the given title unchanged otherwise. It is
  always a string, and a non-empty one for every path that names a file, that is, has a
  character other than a slash.
\<close>

theorem processFrontmatter_title_ok:
  "processFrontmatter fm file getBasename ''title''
     = (if fm ''title'' = JUndefined \<or> \<not> isString (fm ''title'')
           \<or> (\<exists>s. fm ''title'' = JStr s \<and> trim s = [])
        then JStr (getBasename file) else fm ''title'')
   \<and> isString (processFrontmatter fm file getBasename ''title'')
   \<and> ((\<exists>c\<in>set file. \<not> isSlash c)
        \<longrightarrow> (\<exists>s. processFrontmatter fm file getBasename ''title'' = JStr s \<and> s \<noteq> []))"
proof -
  have c: "titleUnusable (fm ''title'')
           \<longleftrightarrow> fm ''title'' = JUndefined \<or> \<not> isString (fm ''title'')
               \<or> (\<exists>s. fm ''title'' = JStr s \<and> trim s = [])"
    by (cases "fm ''title''") (auto simp: titleUnusable_def trim_def)
  have 1: "processFrontmatter fm file getBasename ''title''
         = (if fm ''title'' = JUndefined \<or> \<not> isString (fm ''title'')
               \<or> (\<exists>s. fm ''title'' = JStr s \<and> trim s = [])
            then JStr (getBasename file) else fm ''title'')"
    unfolding processFrontmatter_title c by simp
  have 2: "isString (processFrontmatter fm file getBasename ''title'')"
    by (cases "fm ''title''") (auto simp: processFrontmatter_title titleUnusable_def)
  have 3: "(\<exists>c\<in>set file. \<not> isSlash c)
        \<longrightarrow> (\<exists>s. processFrontmatter fm file getBasename ''title'' = JStr s \<and> s \<noteq> [])"
  proof
    assume "\<exists>c\<in>set file. \<not> isSlash c"
    then have b: "getBasename file \<noteq> []" by (rule getBasename_nonempty)
    show "\<exists>s. processFrontmatter fm file getBasename ''title'' = JStr s \<and> s \<noteq> []"
    proof (cases "titleUnusable (fm ''title'')")
      case True
      then show ?thesis using b by (simp add: processFrontmatter_title)
    next
      case False
      then obtain s where "fm ''title'' = JStr s" "s \<noteq> []"
        by (cases "fm ''title''") (auto simp: titleUnusable_def)
      then show ?thesis using False by (simp add: processFrontmatter_title)
    qed
  qed
  from 1 2 3 show ?thesis by blast
qed

lemma getBasename_example: "getBasename ''vault/My Note.md'' = ''My Note''"
  by code_simp

theorem processFrontmatter_title_ok_witness:
  "(\<exists>c\<in>set ''vault/My Note.md''. \<not> isSlash c)
   \<and> processFrontmatter ((\<lambda>k. JUndefined)(''title'' := JStr ''  '')) ''vault/My Note.md'' getBasename ''title'' = JStr ''My Note''
   \<and> processFrontmatter ((\<lambda>k. JUndefined)(''title'' := JStr ''Kept'')) ''vault/My Note.md'' getBasename ''title'' = JStr ''Kept''"
proof -
  have h: "\<exists>c\<in>set ''vault/My Note.md''. \<not> isSlash c"
    by (simp add: isSlash_def)
  have t1: "trim ''  '' = []" by code_simp
  have t2: "trim ''Kept'' \<noteq> []" by code_simp
  show ?thesis
    using h processFrontmatter_title_ok [of "(\<lambda>k. JUndefined)(''title'' := JStr ''  '')" "''vault/My Note.md''"]
      processFrontmatter_title_ok [of "(\<lambda>k. JUndefined)(''title'' := JStr ''Kept'')" "''vault/My Note.md''"]
    by (simp add: getBasename_example t1 t2)
qed

section \<open>Batch runner: results\<close>




lemma batchLoop_zero_window:
  "batchLoop run fps c i results = Some rs \<Longrightarrow> c = 0 \<longrightarrow> \<not> i < length fps"
proof (rule batchLoop.raw_induct
    [where P = "\<lambda>run fps c i results rs. c = 0 \<longrightarrow> \<not> i < length fps"])
  fix loop :: "(string \<Rightarrow> note_result settled) \<Rightarrow> string list \<Rightarrow> nat \<Rightarrow> nat
                 \<Rightarrow> note_result list \<Rightarrow> note_result list option"
    and run fps c i results y
  assume ih: "\<And>run fps c i results y. loop run fps c i results = Some y
                \<Longrightarrow> c = 0 \<longrightarrow> \<not> i < length fps"
    and st: "(if i < length fps
              then loop run fps c (i + c) (results @ runBatch run (take c (drop i fps)))
              else Some results) = Some y"
  show "c = 0 \<longrightarrow> \<not> i < length fps"
  proof (cases "i < length fps")
    case True
    with st have "loop run fps c (i + c) (results @ runBatch run (take c (drop i fps))) = Some y"
      by simp
    then have "c = 0 \<longrightarrow> \<not> i + c < length fps" by (rule ih)
    with True show ?thesis by auto
  next
    case False
    then show ?thesis by simp
  qed
next
  assume "batchLoop run fps c i results = Some rs"
  then show "batchLoop run fps c i results = Some rs" .
qed

lemma batchLoop_diverges:
  "batchLoop run fps 0 i results = Some rs \<Longrightarrow> \<not> i < length fps"
  using batchLoop_zero_window [of run fps 0 i results rs] by simp



text \<open>
  With a window size of zero the index never advances: on a non-empty list of files the
  loop does not end.
\<close>

lemma processFilesInParallel_zero_window:
  "files \<noteq> [] \<Longrightarrow> processFilesInParallel run join files cfg 0 = None"
proof (rule ccontr)
  assume f: "files \<noteq> []" and "processFilesInParallel run join files cfg 0 \<noteq> None"
  then obtain rs where "batchLoop run (map (\<lambda>file. join (sourceMarkdownDir cfg) file) files) 0 0 [] = Some rs"
    by (auto simp: processFilesInParallel_def)
  then have "\<not> 0 < length (map (\<lambda>file. join (sourceMarkdownDir cfg) file) files)"
    by (rule batchLoop_diverges)
  with f show False by simp
qed



section \<open>Cross-poster: update falls back to create\<close>


text \<open>
  C7. When the post was read, the lookup by canonical URL answered, an article id is
  known (from the lookup or else from the metadata record) and the update call for that
  id fails, \<open>processPost\<close> goes on to create a new article: its outcome is that of the
  creation alone. The update error is not what it throws; when the creation succeeds the
  post is synced and recorded under the new article, and only an error of the creation
  itself is thrown on.
\<close>

theorem processPost_update_fallback:
  assumes "readPost io postPath = Inr content"
    and "matterParse io content = Inr (fm, body)"
    and "getArticleByCanonicalUrl io (originalSiteUrl io @ ''/blog/'' @ postId) = Inr existing"
    and "truthy (chooseArticleId existing (metadata postId))"
    and "updateArticle io (chooseArticleId existing (metadata postId))
           (buildArticleData io postId fm body publish) = Inl updateError"
  shows "processPost io postId postPath metadata publish
         = createNew io postId (originalSiteUrl io @ ''/blog/'' @ postId) metadata
             (buildArticleData io postId fm body publish)
       \<and> (\<forall>created. createArticle io (buildArticleData io postId fm body publish) = Inr (Some created)
            \<longrightarrow> processPost io postId postPath metadata publish
                = Inr (recordResult io postId (originalSiteUrl io @ ''/blog/'' @ postId)
                         metadata created))
       \<and> (\<forall>createError. createArticle io (buildArticleData io postId fm body publish) = Inl createError
            \<longrightarrow> processPost io postId postPath metadata publish = Inl createError)"
proof -
  let ?canonical = "originalSiteUrl io @ ''/blog/'' @ postId"
  let ?data = "buildArticleData io postId fm body publish"
  have p: "processPost io postId postPath metadata publish
           = updateOrCreate io postId ?canonical metadata ?data
               (chooseArticleId existing (metadata postId))"
    using assms(1,2,3) by (simp add: processPost_def Let_def)
  have 1: "processPost io postId postPath metadata publish
           = createNew io postId ?canonical metadata ?data"
    unfolding p using assms(4,5) by (simp add: updateOrCreate_def)
  have 2: "\<forall>created. createArticle io ?data = Inr (Some created)
            \<longrightarrow> processPost io postId postPath metadata publish
                = Inr (recordResult io postId ?canonical metadata created)"
    unfolding 1 by (simp add: createNew_def)
  have 3: "\<forall>createError. createArticle io ?data = Inl createError
            \<longrightarrow> processPost io postId postPath metadata publish = Inl createError"
    unfolding 1 by (simp add: createNew_def)
  from 1 2 3 show ?thesis by simp
qed

theorem processPost_update_fallback_witness:
  "truthy (chooseArticleId (Some listedArticle) (Map.empty ''first''))
   \<and> updateArticle brokenUpdateIo (chooseArticleId (Some listedArticle) (Map.empty ''first''))
        (buildArticleData brokenUpdateIo ''first'' titledNote ''body'' False)
      = Inl ''API request failed: 500''
   \<and> processPost brokenUpdateIo ''first'' ''blog/first/index.mdx'' Map.empty False
      = Inr (recordResult brokenUpdateIo ''first'' ''https://site/blog/first'' Map.empty createdArticle)"
proof -
  have a1: "readPost brokenUpdateIo ''blog/first/index.mdx'' = Inr ''raw''"
    by (simp add: brokenUpdateIo_def)
  have a2: "matterParse brokenUpdateIo ''raw'' = Inr (titledNote, ''body'')"
    by (simp add: brokenUpdateIo_def)
  have a3: "getArticleByCanonicalUrl brokenUpdateIo (originalSiteUrl brokenUpdateIo @ ''/blog/'' @ ''first'')
            = Inr (Some listedArticle)"
    by (simp add: brokenUpdateIo_def getArticleByCanonicalUrl_def listedArticle_def)
  have a4: "truthy (chooseArticleId (Some listedArticle) (Map.empty ''first''))"
    by (simp add: chooseArticleId_def listedArticle_def)
  have a5: "updateArticle brokenUpdateIo (chooseArticleId (Some listedArticle) (Map.empty ''first''))
        (buildArticleData brokenUpdateIo ''first'' titledNote ''body'' False)
      = Inl ''API request failed: 500''"
    by (simp add: brokenUpdateIo_def)
  have c: "createArticle brokenUpdateIo (buildArticleData brokenUpdateIo ''first'' titledNote ''body'' False)
           = Inr (Some createdArticle)"
    by (simp add: brokenUpdateIo_def)
  have u: "originalSiteUrl brokenUpdateIo @ ''/blog/'' @ ''first'' = ''https://site/blog/first''"
    by (simp add: brokenUpdateIo_def)
  from processPost_update_fallback [OF a1 a2 a3 a4 a5] c
  have "processPost brokenUpdateIo ''first'' ''blog/first/index.mdx'' Map.empty False
        = Inr (recordResult brokenUpdateIo ''first'' (originalSiteUrl brokenUpdateIo @ ''/blog/'' @ ''first'')
                 Map.empty createdArticle)"
    by blast
  with a4 a5 u show ?thesis by simp
qed

section \<open>Image relocator: missing files and failed copies\<close>


lemma imageLoop_tasks:
  "snd (imageLoop io sourceDir (fsJoin io destDir ''assets'') ms content tasks)
   = tasks @ map (\<lambda>m. copyOf io sourceDir destDir (snd m)) ms"
  by (induction ms arbitrary: content tasks) (auto simp: copyOf_def Let_def)

lemma promiseAll_all_ok:
  "\<forall>t\<in>set ts. \<not> isl t \<Longrightarrow> promiseAll ts = Inr (map projr ts)"
proof (induction ts)
  case Nil
  show ?case by simp
next
  case (Cons t ts)
  then show ?case by (cases t) simp_all
qed

lemma promiseAll_some_failed:
  "\<exists>t\<in>set ts. isl t \<Longrightarrow> \<exists>e. promiseAll ts = Inl e \<and> Inl e \<in> set ts"
proof (induction ts)
  case Nil
  then show ?case by simp
next
  case (Cons t ts)
  show ?case
  proof (cases t)
    case (Inl e)
    then show ?thesis by auto
  next
    case (Inr v)
    with Cons.prems have "\<exists>t\<in>set ts. isl t" by auto
    then obtain e where "promiseAll ts = Inl e" "Inl e \<in> set ts"
      using Cons.IH by blast
    with Inr show ?thesis by auto
  qed
qed

lemma copyImage_missing:
  "\<not> fsPathExists io src \<Longrightarrow>
   copyImage io src dst orig norm
   = Inr \<lparr>success = False, originalName = orig, normalizedName = None, error = Some ''missing''\<rparr>"
  by (simp add: copyImage_def)

lemma copyImage_io_error:
  "fsPathExists io src \<Longrightarrow> fsCopy io src dst = Some e \<Longrightarrow> copyImage io src dst orig norm = Inl e"
  by (simp add: copyImage_def)

lemma copyImage_success_flag:
  "copyImage io src dst orig norm = Inr r \<Longrightarrow> success r = fsPathExists io src"
  by (auto simp: copyImage_def split: if_splits option.splits)

lemma copyImageCatching_never_throws:
  "fsPathExists io src \<Longrightarrow> fsCopy io src dst = Some e \<Longrightarrow>
   copyImageCatching io src dst orig norm
   = \<lparr>success = False, originalName = orig, normalizedName = Some norm, error = Some e\<rparr>"
  by (simp add: copyImageCatching_def)

lemma processImages_tasks:
  assumes "matchAll content \<noteq> []"
    and "fsEnsureDir io (fsJoin io destDir ''assets'') = None"
  shows "processImages io content sourceDir destDir
         = (case promiseAll (map (\<lambda>m. copyOf io sourceDir destDir (snd m)) (matchAll content)) of
              Inl e \<Rightarrow> Inl e
            | Inr results \<Rightarrow>
                Inr (fst (imageLoop io sourceDir (fsJoin io destDir ''assets'') (matchAll content)
                            content []), results))"
proof -
  obtain u t where l: "imageLoop io sourceDir (fsJoin io destDir ''assets'') (matchAll content) content [] = (u, t)"
    by (cases "imageLoop io sourceDir (fsJoin io destDir ''assets'') (matchAll content) content []")
  have "t = map (\<lambda>m. copyOf io sourceDir destDir (snd m)) (matchAll content)"
    using imageLoop_tasks [of io sourceDir destDir "matchAll content" content "[]"] l by simp
  then show ?thesis
    using assms l by (simp add: processImages_def Let_def split: sum.splits)
qed

lemma processImages_missing_only:
  assumes "matchAll content \<noteq> []"
    and "fsEnsureDir io (fsJoin io destDir ''assets'') = None"
    and "\<forall>m\<in>set (matchAll content). \<not> isl (copyOf io sourceDir destDir (snd m))"
  shows "\<exists>updated results.
           processImages io content sourceDir destDir = Inr (updated, results)
           \<and> length results = length (matchAll content)
           \<and> (\<forall>k<length results.
                 success (results ! k)
                 = fsPathExists io (fsJoin io sourceDir (snd (matchAll content ! k))))"
proof -
  let ?ts = "map (\<lambda>m. copyOf io sourceDir destDir (snd m)) (matchAll content)"
  have ok: "\<forall>t\<in>set ?ts. \<not> isl t" using assms(3) by auto
  have pa: "promiseAll ?ts = Inr (map projr ?ts)" using ok by (rule promiseAll_all_ok)
  have flags: "\<forall>k<length (map projr ?ts).
                 success (map projr ?ts ! k)
                 = fsPathExists io (fsJoin io sourceDir (snd (matchAll content ! k)))"
  proof (intro allI impI)
    fix k assume "k < length (map projr ?ts)"
    then have k: "k < length (matchAll content)" by simp
    then have "matchAll content ! k \<in> set (matchAll content)" by simp
    then have "\<not> isl (copyOf io sourceDir destDir (snd (matchAll content ! k)))"
      using assms(3) by blast
    then obtain r where r: "copyOf io sourceDir destDir (snd (matchAll content ! k)) = Inr r"
      by (cases "copyOf io sourceDir destDir (snd (matchAll content ! k))") simp_all
    then have "success r = fsPathExists io (fsJoin io sourceDir (snd (matchAll content ! k)))"
      unfolding copyOf_def by (rule copyImage_success_flag)
    then show "success (map projr ?ts ! k)
                 = fsPathExists io (fsJoin io sourceDir (snd (matchAll content ! k)))"
      using k r by simp
  qed
  show ?thesis
    unfolding processImages_tasks [OF assms(1,2)] pa using flags by simp
qed

lemma processImages_hard_failure:
  assumes "fsEnsureDir io (fsJoin io destDir ''assets'') = None"
    and "m \<in> set (matchAll content)"
    and "isl (copyOf io sourceDir destDir (snd m))"
  shows "\<exists>e. processImages io content sourceDir destDir = Inl e"
proof -
  let ?ts = "map (\<lambda>m. copyOf io sourceDir destDir (snd m)) (matchAll content)"
  have ne: "matchAll content \<noteq> []" using assms(2) by auto
  have "\<exists>t\<in>set ?ts. isl t" using assms(2,3) by auto
  then obtain e where "promiseAll ?ts = Inl e" using promiseAll_some_failed by blast
  then show ?thesis
    unfolding processImages_tasks [OF ne assms(1)] by simp
qed

lemma copyOf_isl:
  "isl (copyOf io sourceDir destDir name)
   \<longleftrightarrow> fsPathExists io (fsJoin io sourceDir name)
       \<and> fsCopy io (fsJoin io sourceDir name)
            (fsJoin io (fsJoin io destDir ''assets'') (normalizeImageName name)) \<noteq> None"
  by (auto simp: copyOf_def copyImage_def split: option.splits)

lemma copyImageCatching_missing:
  "\<not> fsPathExists io src \<Longrightarrow>
   copyImageCatching io src dst orig norm
   = \<lparr>success = False, originalName = orig, normalizedName = Some norm, error = None\<rparr>"
  by (simp add: copyImageCatching_def)

lemma copyTask_success:
  "success (copyTask io sourceDir assetsDir m)
   \<longleftrightarrow> fsPathExists io (fsJoin io sourceDir (trim (snd m)))
       \<and> fsCopy io (fsJoin io sourceDir (trim (snd m)))
            (fsJoin io assetsDir (normalizeImageName (trim (snd m)))) = None"
  by (simp add: copyTask_def copyImageCatching_def Let_def split: option.splits)

lemma copyTask_name:
  "nameText (copyTask io sourceDir assetsDir m) = normalizeImageName (trim (snd m))"
  by (simp add: copyTask_def copyImageCatching_def nameText_def Let_def split: option.splits)

lemma processImagesCatching_returns:
  assumes "fsEnsureDir io (fsJoin io destDir ''assets'') = None"
  shows "processImagesCatching io content sourceDir destDir
         = Inr (replaceTokens content
                  (zip (obsidianImages content)
                     (map (copyTask io sourceDir (fsJoin io destDir ''assets''))
                        (obsidianImages content))),
                map (copyTask io sourceDir (fsJoin io destDir ''assets''))
                  (obsidianImages content))"
  using assms by (simp add: processImagesCatching_def Let_def)

lemma scriptIo_fields:
  "readNoteFile (scriptIo fs io) = readNoteFile io"
  "buildMdxContent (scriptIo fs io) = buildMdxContent io"
  "writeFile (scriptIo fs io) = writeFile io"
  "pathJoin (scriptIo fs io) = fsJoin fs"
  "ensureDir (scriptIo fs io) = fsEnsureDir fs"
  "processImagesIO (scriptIo fs io) = processImagesCatching fs"
  by (simp_all add: scriptIo_def)

lemma processNote_script_imported:
  assumes rd: "readNoteFile nio filePath = Inr (fm, body)"
    and sk: "getSkipReason fm = None"
    and va: "validateFrontmatter env fm = None"
    and en: "\<forall>d. fsEnsureDir io d = None"
    and bu: "\<forall>c f. \<not> isl (buildMdxContent nio c f)"
    and wr: "\<forall>p c. writeFile nio p c = None"
  shows "processNote env (scriptIo io nio) filePath cfg
         = \<lparr>status = Imported, filename = basename1 filePath, message = None,
            slug = Some (slugify (getBasename filePath))\<rparr>"
proof -
  let ?dest = "fsJoin io (targetDir cfg) (slugify (getBasename filePath))"
  let ?results = "map (copyTask io (sourceAttachmentDir cfg) (fsJoin io ?dest ''assets''))
                    (obsidianImages body)"
  let ?updated = "replaceTokens body (zip (obsidianImages body) ?results)"
  let ?processed = "parseObsidianFrontMatter fm filePath getBasename"
  have im: "processImagesCatching io body (sourceAttachmentDir cfg) ?dest
            = Inr (?updated, ?results)"
    using en by (intro processImagesCatching_returns) simp
  have "\<not> isl (buildMdxContent nio ?updated ?processed)" using bu by blast
  then obtain final where fi: "buildMdxContent nio ?updated ?processed = Inr final"
    by (cases "buildMdxContent nio ?updated ?processed") simp_all
  have "importNote (scriptIo io nio) filePath cfg fm body
        = \<lparr>status = Imported, filename = basename1 filePath, message = None,
           slug = Some (slugify (getBasename filePath))\<rparr>"
    unfolding importNote_def Let_def scriptIo_fields im
    using en wr fi by simp
  then show ?thesis
    unfolding processNote_def Let_def scriptIo_fields
    using rd sk va by (simp add: truthyStr_def)
qed

lemma matchAll_twoImages:
  "matchAll twoImages = [(''![[a.png]]'', ''a.png''), (''![[b.png]]'', ''b.png'')]"
  by code_simp

lemma obsidianImages_twoImages:
  "obsidianImages twoImages = [(''![[a.png]]'', ''a.png''), (''![[b.png]]'', ''b.png'')]"
  by code_simp

lemma readyNote_passes:
  "getSkipReason readyNote = None" "validateFrontmatter lenientEnv readyNote = None"
  by (simp_all add: getSkipReason_def validateFrontmatter_def readyNote_def lenientEnv_def
      Let_def)

text \<open>
  C3, as stated, fails in the import script. The relocator that the script loads catches
  the error of a copy: with both attachments there and a disk on which every copy fails
  with \<open>ENOSPC\<close>, \<open>processImages\<close> returns two results with \<open>success = False\<close> that carry
  the message, and the note is imported, not failed.
\<close>

theorem copyImage_failed_copy_counterexample:
  "fsPathExists fullDiskIo ''att/a.png''
   \<and> fsCopy fullDiskIo ''att/a.png'' ''out/a/assets/a.png'' = Some ''ENOSPC''
   \<and> processImagesCatching fullDiskIo twoImages ''att'' ''out/a''
     = Inr (''x ![a.png](./assets/a.png) y ![b.png](./assets/b.png)'',
            [\<lparr>success = False, originalName = ''a.png'', normalizedName = Some ''a.png'',
              error = Some ''ENOSPC''\<rparr>,
             \<lparr>success = False, originalName = ''b.png'', normalizedName = Some ''b.png'',
              error = Some ''ENOSPC''\<rparr>])
   \<and> processNote lenientEnv (scriptIo fullDiskIo readyIo) ''vault/a.md'' exampleConfig
     = \<lparr>status = Imported, filename = ''a.md'', message = None, slug = Some ''a''\<rparr>"
  by code_simp

text \<open>
  C3, amended. A copy whose source file does not exist gives a result with
  \<open>success = False\<close> and stops neither the other images nor the note. In the cited
  \<open>copyImage\<close> (conjuncts 1 to 4) any other error of the copy is thrown: when no copy
  throws, \<open>processImages\<close> returns one result per matched image, each telling whether its
  source was there, and when some copy throws, \<open>processImages\<close> throws. In the utilities
  that the import script loads (conjuncts 5 to 8) \<open>copyImage\<close> catches the error and
  returns a result with \<open>success = False\<close> and the message of the error;
  \<open>processImages\<close> returns one result per matched image, successful exactly for the
  images that were there and could be copied; and a note that is read, is neither
  skipped nor rejected, and can be built and written into directories that can be made,
  is imported whichever images are missing and whichever copies fail.
\<close>

theorem copyImage_missing_or_failed_copy:
  "(\<not> fsPathExists io src \<longrightarrow>
      copyImage io src dst orig norm
      = Inr \<lparr>success = False, originalName = orig, normalizedName = None,
             error = Some ''missing''\<rparr>)
   \<and> (fsPathExists io src \<and> fsCopy io src dst = Some e \<longrightarrow>
      copyImage io src dst orig norm = Inl e)
   \<and> (matchAll content \<noteq> [] \<and> fsEnsureDir io (fsJoin io destDir ''assets'') = None
       \<and> (\<forall>m\<in>set (matchAll content).
             fsPathExists io (fsJoin io sourceDir (snd m)) \<longrightarrow>
             fsCopy io (fsJoin io sourceDir (snd m))
               (fsJoin io (fsJoin io destDir ''assets'') (normalizeImageName (snd m))) = None)
       \<longrightarrow> (\<exists>updated results.
              processImages io content sourceDir destDir = Inr (updated, results)
              \<and> length results = length (matchAll content)
              \<and> (\<forall>k<length results.
                    success (results ! k)
                    = fsPathExists io (fsJoin io sourceDir (snd (matchAll content ! k))))))
   \<and> (fsEnsureDir io (fsJoin io destDir ''assets'') = None
       \<and> (\<exists>m\<in>set (matchAll content).
             fsPathExists io (fsJoin io sourceDir (snd m))
             \<and> fsCopy io (fsJoin io sourceDir (snd m))
                 (fsJoin io (fsJoin io destDir ''assets'') (normalizeImageName (snd m))) \<noteq> None)
       \<longrightarrow> (\<exists>failure. processImages io content sourceDir destDir = Inl failure))
   \<and> (\<not> fsPathExists io src \<longrightarrow>
      copyImageCatching io src dst orig norm
      = \<lparr>success = False, originalName = orig, normalizedName = Some norm, error = None\<rparr>)
   \<and> (fsPathExists io src \<and> fsCopy io src dst = Some e \<longrightarrow>
      copyImageCatching io src dst orig norm
      = \<lparr>success = False, originalName = orig, normalizedName = Some norm, error = Some e\<rparr>)
   \<and> (fsEnsureDir io (fsJoin io destDir ''assets'') = None
       \<longrightarrow> (\<exists>updated results.
              processImagesCatching io content sourceDir destDir = Inr (updated, results)
              \<and> length results = length (obsidianImages content)
              \<and> (\<forall>k<length results.
                    success (results ! k)
                    = (fsPathExists io
                         (fsJoin io sourceDir (trim (snd (obsidianImages content ! k))))
                       \<and> fsCopy io
                           (fsJoin io sourceDir (trim (snd (obsidianImages content ! k))))
                           (fsJoin io (fsJoin io destDir ''assets'')
                              (normalizeImageName (trim (snd (obsidianImages content ! k)))))
                         = None))))
   \<and> (readNoteFile nio filePath = Inr (fm, body)
       \<and> getSkipReason fm = None \<and> validateFrontmatter env fm = None
       \<and> (\<forall>d. fsEnsureDir io d = None)
       \<and> (\<forall>c f. \<not> isl (buildMdxContent nio c f))
       \<and> (\<forall>p c. writeFile nio p c = None)
       \<longrightarrow> processNote env (scriptIo io nio) filePath cfg
           = \<lparr>status = Imported, filename = basename1 filePath, message = None,
              slug = Some (slugify (getBasename filePath))\<rparr>)"
proof -
  have 1: "\<not> fsPathExists io src \<longrightarrow>
      copyImage io src dst orig norm
      = Inr \<lparr>success = False, originalName = orig, normalizedName = None,
             error = Some ''missing''\<rparr>"
    by (simp add: copyImage_missing)
  have 2: "fsPathExists io src \<and> fsCopy io src dst = Some e \<longrightarrow>
      copyImage io src dst orig norm = Inl e"
    by (simp add: copyImage_io_error)
  have 3: "matchAll content \<noteq> [] \<and> fsEnsureDir io (fsJoin io destDir ''assets'') = None
       \<and> (\<forall>m\<in>set (matchAll content).
             fsPathExists io (fsJoin io sourceDir (snd m)) \<longrightarrow>
             fsCopy io (fsJoin io sourceDir (snd m))
               (fsJoin io (fsJoin io destDir ''assets'') (normalizeImageName (snd m))) = None)
       \<longrightarrow> (\<exists>updated results.
              processImages io content sourceDir destDir = Inr (updated, results)
              \<and> length results = length (matchAll content)
              \<and> (\<forall>k<length results.
                    success (results ! k)
                    = fsPathExists io (fsJoin io sourceDir (snd (matchAll content ! k)))))"
  proof (intro impI, elim conjE)
    assume a: "matchAll content \<noteq> []" "fsEnsureDir io (fsJoin io destDir ''assets'') = None"
      and b: "\<forall>m\<in>set (matchAll content).
             fsPathExists io (fsJoin io sourceDir (snd m)) \<longrightarrow>
             fsCopy io (fsJoin io sourceDir (snd m))
               (fsJoin io (fsJoin io destDir ''assets'') (normalizeImageName (snd m))) = None"
    have "\<forall>m\<in>set (matchAll content). \<not> isl (copyOf io sourceDir destDir (snd m))"
      using b by (simp add: copyOf_isl)
    with a show "\<exists>updated results.
              processImages io content sourceDir destDir = Inr (updated, results)
              \<and> length results = length (matchAll content)
              \<and> (\<forall>k<length results.
                    success (results ! k)
                    = fsPathExists io (fsJoin io sourceDir (snd (matchAll content ! k))))"
      by (rule processImages_missing_only)
  qed
  have 4: "fsEnsureDir io (fsJoin io destDir ''assets'') = None
       \<and> (\<exists>m\<in>set (matchAll content).
             fsPathExists io (fsJoin io sourceDir (snd m))
             \<and> fsCopy io (fsJoin io sourceDir (snd m))
                 (fsJoin io (fsJoin io destDir ''assets'') (normalizeImageName (snd m))) \<noteq> None)
       \<longrightarrow> (\<exists>failure. processImages io content sourceDir destDir = Inl failure)"
    using processImages_hard_failure [of io destDir _ content sourceDir]
    by (auto simp: copyOf_isl)
  have 5: "\<not> fsPathExists io src \<longrightarrow>
      copyImageCatching io src dst orig norm
      = \<lparr>success = False, originalName = orig, normalizedName = Some norm, error = None\<rparr>"
    by (simp add: copyImageCatching_missing)
  have 6: "fsPathExists io src \<and> fsCopy io src dst = Some e \<longrightarrow>
      copyImageCatching io src dst orig norm
      = \<lparr>success = False, originalName = orig, normalizedName = Some norm, error = Some e\<rparr>"
    by (simp add: copyImageCatching_never_throws)
  have 7: "fsEnsureDir io (fsJoin io destDir ''assets'') = None
       \<longrightarrow> (\<exists>updated results.
              processImagesCatching io content sourceDir destDir = Inr (updated, results)
              \<and> length results = length (obsidianImages content)
              \<and> (\<forall>k<length results.
                    success (results ! k)
                    = (fsPathExists io
                         (fsJoin io sourceDir (trim (snd (obsidianImages content ! k))))
                       \<and> fsCopy io
                           (fsJoin io sourceDir (trim (snd (obsidianImages content ! k))))
                           (fsJoin io (fsJoin io destDir ''assets'')
                              (normalizeImageName (trim (snd (obsidianImages content ! k)))))
                         = None)))"
  proof
    assume a: "fsEnsureDir io (fsJoin io destDir ''assets'') = None"
    show "\<exists>updated results.
              processImagesCatching io content sourceDir destDir = Inr (updated, results)
              \<and> length results = length (obsidianImages content)
              \<and> (\<forall>k<length results.
                    success (results ! k)
                    = (fsPathExists io
                         (fsJoin io sourceDir (trim (snd (obsidianImages content ! k))))
                       \<and> fsCopy io
                           (fsJoin io sourceDir (trim (snd (obsidianImages content ! k))))
                           (fsJoin io (fsJoin io destDir ''assets'')
                              (normalizeImageName (trim (snd (obsidianImages content ! k)))))
                         = None))"
      unfolding processImagesCatching_returns [OF a] by (simp add: copyTask_success)
  qed
  have 8: "readNoteFile nio filePath = Inr (fm, body)
       \<and> getSkipReason fm = None \<and> validateFrontmatter env fm = None
       \<and> (\<forall>d. fsEnsureDir io d = None)
       \<and> (\<forall>c f. \<not> isl (buildMdxContent nio c f))
       \<and> (\<forall>p c. writeFile nio p c = None)
       \<longrightarrow> processNote env (scriptIo io nio) filePath cfg
           = \<lparr>status = Imported, filename = basename1 filePath, message = None,
              slug = Some (slugify (getBasename filePath))\<rparr>"
    using processNote_script_imported [of nio filePath fm body env io cfg] by blast
  from 1 2 3 4 5 6 7 8 show ?thesis by blast
qed

theorem copyImage_missing_or_failed_copy_witness:
  "\<not> fsPathExists halfIo ''att/a.png''
   \<and> copyImage halfIo ''att/a.png'' ''out/assets/a.png'' ''a.png'' ''a.png''
       = Inr \<lparr>success = False, originalName = ''a.png'', normalizedName = None,
              error = Some ''missing''\<rparr>
   \<and> (\<exists>updated results.
         processImages halfIo twoImages ''att'' ''out'' = Inr (updated, results)
         \<and> length results = 2 \<and> success (results ! 0) = False \<and> success (results ! 1) = True)
   \<and> copyImageCatching halfIo ''att/a.png'' ''out/assets/a.png'' ''a.png'' ''a.png''
       = \<lparr>success = False, originalName = ''a.png'', normalizedName = Some ''a.png'',
          error = None\<rparr>
   \<and> (\<exists>updated results.
         processImagesCatching halfIo twoImages ''att'' ''out'' = Inr (updated, results)
         \<and> length results = 2 \<and> success (results ! 0) = False \<and> success (results ! 1) = True)
   \<and> processNote lenientEnv (scriptIo halfIo readyIo) ''vault/a.md'' exampleConfig
       = \<lparr>status = Imported, filename = basename1 ''vault/a.md'', message = None,
          slug = Some (slugify (getBasename ''vault/a.md''))\<rparr>
   \<and> fsPathExists fullDiskIo ''att/a.png''
   \<and> fsCopy fullDiskIo ''att/a.png'' ''out/assets/a.png'' = Some ''ENOSPC''
   \<and> copyImage fullDiskIo ''att/a.png'' ''out/assets/a.png'' ''a.png'' ''a.png'' = Inl ''ENOSPC''
   \<and> (\<exists>failure. processImages fullDiskIo twoImages ''att'' ''out'' = Inl failure)
   \<and> copyImageCatching fullDiskIo ''att/a.png'' ''out/assets/a.png'' ''a.png'' ''a.png''
       = \<lparr>success = False, originalName = ''a.png'', normalizedName = Some ''a.png'',
          error = Some ''ENOSPC''\<rparr>
   \<and> (\<exists>updated results.
         processImagesCatching fullDiskIo twoImages ''att'' ''out'' = Inr (updated, results)
         \<and> length results = 2 \<and> success (results ! 0) = False \<and> success (results ! 1) = False)
   \<and> processNote lenientEnv (scriptIo fullDiskIo readyIo) ''vault/a.md'' exampleConfig
       = \<lparr>status = Imported, filename = basename1 ''vault/a.md'', message = None,
          slug = Some (slugify (getBasename ''vault/a.md''))\<rparr>"
proof -
  note half = copyImage_missing_or_failed_copy
    [of halfIo "''att/a.png''" "''out/assets/a.png''" "''a.png''" "''a.png''" "''ENOSPC''"
        twoImages "''out''" "''att''" readyIo "''vault/a.md''" readyNote twoImages lenientEnv
        exampleConfig]
  note full = copyImage_missing_or_failed_copy
    [of fullDiskIo "''att/a.png''" "''out/assets/a.png''" "''a.png''" "''a.png''" "''ENOSPC''"
        twoImages "''out''" "''att''" readyIo "''vault/a.md''" readyNote twoImages lenientEnv
        exampleConfig]
  note half1 = half [THEN conjunct1]
  note half3 = half [THEN conjunct2, THEN conjunct2, THEN conjunct1]
  note half5 = half [THEN conjunct2, THEN conjunct2, THEN conjunct2, THEN conjunct2,
      THEN conjunct1]
  note half7 = half [THEN conjunct2, THEN conjunct2, THEN conjunct2, THEN conjunct2,
      THEN conjunct2, THEN conjunct2, THEN conjunct1]
  note half8 = half [THEN conjunct2, THEN conjunct2, THEN conjunct2, THEN conjunct2,
      THEN conjunct2, THEN conjunct2, THEN conjunct2]
  note full2 = full [THEN conjunct2, THEN conjunct1]
  note full4 = full [THEN conjunct2, THEN conjunct2, THEN conjunct2, THEN conjunct1]
  note full6 = full [THEN conjunct2, THEN conjunct2, THEN conjunct2, THEN conjunct2,
      THEN conjunct2, THEN conjunct1]
  note full7 = full [THEN conjunct2, THEN conjunct2, THEN conjunct2, THEN conjunct2,
      THEN conjunct2, THEN conjunct2, THEN conjunct1]
  note full8 = full [THEN conjunct2, THEN conjunct2, THEN conjunct2, THEN conjunct2,
      THEN conjunct2, THEN conjunct2, THEN conjunct2]
  have m: "\<not> fsPathExists halfIo ''att/a.png''" by (simp add: halfIo_def)
  have c1: "copyImage halfIo ''att/a.png'' ''out/assets/a.png'' ''a.png'' ''a.png''
       = Inr \<lparr>success = False, originalName = ''a.png'', normalizedName = None,
              error = Some ''missing''\<rparr>"
    by (rule mp [OF half1 m])
  have c5: "copyImageCatching halfIo ''att/a.png'' ''out/assets/a.png'' ''a.png'' ''a.png''
       = \<lparr>success = False, originalName = ''a.png'', normalizedName = Some ''a.png'',
          error = None\<rparr>"
    by (rule mp [OF half5 m])
  have h3: "matchAll twoImages \<noteq> [] \<and> fsEnsureDir halfIo (fsJoin halfIo ''out'' ''assets'') = None
       \<and> (\<forall>m\<in>set (matchAll twoImages).
             fsPathExists halfIo (fsJoin halfIo ''att'' (snd m)) \<longrightarrow>
             fsCopy halfIo (fsJoin halfIo ''att'' (snd m))
               (fsJoin halfIo (fsJoin halfIo ''out'' ''assets'') (normalizeImageName (snd m))) = None)"
    by (simp add: matchAll_twoImages halfIo_def)
  from mp [OF half3 h3] obtain updated results where
    r: "processImages halfIo twoImages ''att'' ''out'' = Inr (updated, results)"
    and l: "length results = length (matchAll twoImages)"
    and f: "\<forall>k<length results.
              success (results ! k)
              = fsPathExists halfIo (fsJoin halfIo ''att'' (snd (matchAll twoImages ! k)))"
    by blast
  have l2: "length results = 2" using l by (simp add: matchAll_twoImages)
  have s0: "success (results ! 0) = False"
    using f l2 by (simp add: matchAll_twoImages halfIo_def)
  have s1: "success (results ! 1) = True"
    using f l2 by (simp add: matchAll_twoImages halfIo_def)
  have c3: "\<exists>updated results.
         processImages halfIo twoImages ''att'' ''out'' = Inr (updated, results)
         \<and> length results = 2 \<and> success (results ! 0) = False \<and> success (results ! 1) = True"
    using r l2 s0 s1 by blast
  have tr: "trim ''a.png'' = ''a.png''" "trim ''b.png'' = ''b.png''" by code_simp+
  have h7: "fsEnsureDir halfIo (fsJoin halfIo ''out'' ''assets'') = None"
    by (simp add: halfIo_def)
  from mp [OF half7 h7] obtain updated' results' where
    r': "processImagesCatching halfIo twoImages ''att'' ''out'' = Inr (updated', results')"
    and l': "length results' = length (obsidianImages twoImages)"
    and f': "\<forall>k<length results'.
              success (results' ! k)
              = (fsPathExists halfIo
                   (fsJoin halfIo ''att'' (trim (snd (obsidianImages twoImages ! k))))
                 \<and> fsCopy halfIo
                     (fsJoin halfIo ''att'' (trim (snd (obsidianImages twoImages ! k))))
                     (fsJoin halfIo (fsJoin halfIo ''out'' ''assets'')
                        (normalizeImageName (trim (snd (obsidianImages twoImages ! k)))))
                   = None)"
    by blast
  have l2': "length results' = 2" using l' by (simp add: obsidianImages_twoImages)
  have s0': "success (results' ! 0) = False"
    using f' l2' by (simp add: obsidianImages_twoImages halfIo_def tr)
  have s1': "success (results' ! 1) = True"
    using f' l2' by (simp add: obsidianImages_twoImages halfIo_def tr)
  have c7: "\<exists>updated results.
         processImagesCatching halfIo twoImages ''att'' ''out'' = Inr (updated, results)
         \<and> length results = 2 \<and> success (results ! 0) = False \<and> success (results ! 1) = True"
    using r' l2' s0' s1' by blast
  have rd: "readNoteFile readyIo ''vault/a.md'' = Inr (readyNote, twoImages)"
    by (simp add: readyIo_def)
  have bw: "(\<forall>c f. \<not> isl (buildMdxContent readyIo c f))
            \<and> (\<forall>p c. writeFile readyIo p c = None)"
    by (simp add: readyIo_def)
  have eh: "\<forall>d. fsEnsureDir halfIo d = None" by (simp add: halfIo_def)
  have h8: "readNoteFile readyIo ''vault/a.md'' = Inr (readyNote, twoImages)
       \<and> getSkipReason readyNote = None \<and> validateFrontmatter lenientEnv readyNote = None
       \<and> (\<forall>d. fsEnsureDir halfIo d = None)
       \<and> (\<forall>c f. \<not> isl (buildMdxContent readyIo c f))
       \<and> (\<forall>p c. writeFile readyIo p c = None)"
    by (intro conjI) (rule rd readyNote_passes eh bw [THEN conjunct1] bw [THEN conjunct2])+
  have c8: "processNote lenientEnv (scriptIo halfIo readyIo) ''vault/a.md'' exampleConfig
       = \<lparr>status = Imported, filename = basename1 ''vault/a.md'', message = None,
          slug = Some (slugify (getBasename ''vault/a.md''))\<rparr>"
    by (rule mp [OF half8 h8])
  have e: "fsPathExists fullDiskIo ''att/a.png''" by (simp add: fullDiskIo_def)
  have cp: "fsCopy fullDiskIo ''att/a.png'' ''out/assets/a.png'' = Some ''ENOSPC''"
    by (simp add: fullDiskIo_def)
  have ecp: "fsPathExists fullDiskIo ''att/a.png''
             \<and> fsCopy fullDiskIo ''att/a.png'' ''out/assets/a.png'' = Some ''ENOSPC''"
    using e cp by (rule conjI)
  have c2: "copyImage fullDiskIo ''att/a.png'' ''out/assets/a.png'' ''a.png'' ''a.png'' = Inl ''ENOSPC''"
    by (rule mp [OF full2 ecp])
  have c6: "copyImageCatching fullDiskIo ''att/a.png'' ''out/assets/a.png'' ''a.png'' ''a.png''
       = \<lparr>success = False, originalName = ''a.png'', normalizedName = Some ''a.png'',
          error = Some ''ENOSPC''\<rparr>"
    by (rule mp [OF full6 ecp])
  have h4: "fsEnsureDir fullDiskIo (fsJoin fullDiskIo ''out'' ''assets'') = None
       \<and> (\<exists>m\<in>set (matchAll twoImages).
             fsPathExists fullDiskIo (fsJoin fullDiskIo ''att'' (snd m))
             \<and> fsCopy fullDiskIo (fsJoin fullDiskIo ''att'' (snd m))
                 (fsJoin fullDiskIo (fsJoin fullDiskIo ''out'' ''assets'') (normalizeImageName (snd m))) \<noteq> None)"
    by (auto simp: matchAll_twoImages fullDiskIo_def)
  have c4: "\<exists>failure. processImages fullDiskIo twoImages ''att'' ''out'' = Inl failure"
    by (rule mp [OF full4 h4])
  have g7: "fsEnsureDir fullDiskIo (fsJoin fullDiskIo ''out'' ''assets'') = None"
    by (simp add: fullDiskIo_def)
  from mp [OF full7 g7] obtain updated'' results'' where
    r'': "processImagesCatching fullDiskIo twoImages ''att'' ''out'' = Inr (updated'', results'')"
    and l'': "length results'' = length (obsidianImages twoImages)"
    and f'': "\<forall>k<length results''.
              success (results'' ! k)
              = (fsPathExists fullDiskIo
                   (fsJoin fullDiskIo ''att'' (trim (snd (obsidianImages twoImages ! k))))
                 \<and> fsCopy fullDiskIo
                     (fsJoin fullDiskIo ''att'' (trim (snd (obsidianImages twoImages ! k))))
                     (fsJoin fullDiskIo (fsJoin fullDiskIo ''out'' ''assets'')
                        (normalizeImageName (trim (snd (obsidianImages twoImages ! k)))))
                   = None)"
    by blast
  have l2'': "length results'' = 2" using l'' by (simp add: obsidianImages_twoImages)
  have s0'': "success (results'' ! 0) = False"
    using f'' l2'' by (simp add: obsidianImages_twoImages fullDiskIo_def)
  have s1'': "success (results'' ! 1) = False"
    using f'' l2'' by (simp add: obsidianImages_twoImages fullDiskIo_def)
  have d7: "\<exists>updated results.
         processImagesCatching fullDiskIo twoImages ''att'' ''out'' = Inr (updated, results)
         \<and> length results = 2 \<and> success (results ! 0) = False \<and> success (results ! 1) = False"
    using r'' l2'' s0'' s1'' by blast
  have ef: "\<forall>d. fsEnsureDir fullDiskIo d = None" by (simp add: fullDiskIo_def)
  have g8: "readNoteFile readyIo ''vault/a.md'' = Inr (readyNote, twoImages)
       \<and> getSkipReason readyNote = None \<and> validateFrontmatter lenientEnv readyNote = None
       \<and> (\<forall>d. fsEnsureDir fullDiskIo d = None)
       \<and> (\<forall>c f. \<not> isl (buildMdxContent readyIo c f))
       \<and> (\<forall>p c. writeFile readyIo p c = None)"
    by (intro conjI) (rule rd readyNote_passes ef bw [THEN conjunct1] bw [THEN conjunct2])+
  have d8: "processNote lenientEnv (scriptIo fullDiskIo readyIo) ''vault/a.md'' exampleConfig
       = \<lparr>status = Imported, filename = basename1 ''vault/a.md'', message = None,
          slug = Some (slugify (getBasename ''vault/a.md''))\<rparr>"
    by (rule mp [OF full8 g8])
  show ?thesis
    by (intro conjI) (rule m c1 c3 c5 c7 c8 e cp c2 c4 c6 d7 d8)+
qed

section \<open>Image names and slugs are idempotent\<close>


lemma of_char_shift:
  "n \<le> 222 \<Longrightarrow> (of_char (char_of (n + 32 :: nat) :: char) :: nat) = n + 32"
  by simp

lemma lowerChar_idem: "lowerChar (lowerChar c) = lowerChar c"
  by (auto simp: lowerChar_def Let_def)

lemma isSpace_lowerChar: "isSpace (lowerChar c) = isSpace c"
  by (auto simp: lowerChar_def isSpace_def Let_def)

lemma slash_code: "isSlash c \<longleftrightarrow> (of_char c :: nat) = 47"
proof -
  have "(of_char c :: nat) = of_char CHR ''/'' \<longleftrightarrow> c = CHR ''/''" by (rule of_char_eq_iff)
  then show ?thesis by (simp add: isSlash_def)
qed

lemma dot_code: "isDot c \<longleftrightarrow> (of_char c :: nat) = 46"
proof -
  have "(of_char c :: nat) = of_char CHR ''.'' \<longleftrightarrow> c = CHR ''.''" by (rule of_char_eq_iff)
  then show ?thesis by (simp add: isDot_def)
qed

lemma hyphen_code: "c = CHR ''-'' \<longleftrightarrow> (of_char c :: nat) = 45"
proof -
  have "(of_char c :: nat) = of_char CHR ''-'' \<longleftrightarrow> c = CHR ''-''" by (rule of_char_eq_iff)
  then show ?thesis by simp
qed

lemma isSlash_lowerChar: "isSlash (lowerChar c) = isSlash c"
  by (auto simp: lowerChar_def slash_code Let_def)

lemma isDot_lowerChar: "isDot (lowerChar c) = isDot c"
  by (auto simp: lowerChar_def dot_code Let_def)

lemma lowerChar_alnum: "isLowerAlnum c \<Longrightarrow> lowerChar c = c"
  by (auto simp: lowerChar_def isLowerAlnum_def Let_def)

lemma lowerChar_hyphen: "lowerChar CHR ''-'' = CHR ''-''"
  by (simp add: lowerChar_def)

lemma hyphen_not_space: "\<not> isSpace CHR ''-''"
  by (simp add: isSpace_def)

lemma hyphen_not_dot: "\<not> isDot CHR ''-''"
  by (simp add: isDot_def)

lemma hyphen_not_slash: "\<not> isSlash CHR ''-''"
  by (simp add: isSlash_def)

lemma dot_not_space: "isDot c \<Longrightarrow> \<not> isSpace c"
  by (auto simp: dot_code isSpace_def Let_def)

lemma replaceSpaceRuns_set:
  "c \<in> set (replaceSpaceRuns s) \<Longrightarrow> (c \<in> set s \<and> \<not> isSpace c) \<or> c = CHR ''-''"
proof (induction s rule: replaceSpaceRuns.induct)
  case 1
  then show ?case by simp
next
  case (2 d ds)
  show ?case
  proof (cases "isSpace d")
    case True
    with "2.prems" have "c = CHR ''-'' \<or> c \<in> set (replaceSpaceRuns (dropWhile isSpace ds))"
      by simp
    then show ?thesis
    proof
      assume "c = CHR ''-''" then show ?thesis by simp
    next
      assume "c \<in> set (replaceSpaceRuns (dropWhile isSpace ds))"
      then have "(c \<in> set (dropWhile isSpace ds) \<and> \<not> isSpace c) \<or> c = CHR ''-''"
        using True by (rule "2.IH"(1)[rotated])
      then show ?thesis by (auto dest: set_dropWhileD)
    qed
  next
    case False
    with "2.prems" have "c = d \<or> c \<in> set (replaceSpaceRuns ds)" by simp
    then show ?thesis using False "2.IH"(2) by auto
  qed
qed

lemma replaceSpaceRuns_id: "\<forall>c\<in>set s. \<not> isSpace c \<Longrightarrow> replaceSpaceRuns s = s"
  by (induction s) simp_all

lemma replaceSpaceRuns_no_space: "c \<in> set (replaceSpaceRuns s) \<Longrightarrow> \<not> isSpace c"
  using replaceSpaceRuns_set [of c s] hyphen_not_space by auto

lemma replaceSpaceRuns_nonempty: "s \<noteq> [] \<Longrightarrow> replaceSpaceRuns s \<noteq> []"
  by (cases s) simp_all

lemma toLowerCase_fixed: "\<forall>c\<in>set s. lowerChar c = c \<Longrightarrow> toLowerCase s = s"
  by (simp add: toLowerCase_def map_idI)

lemma cleaned_fixed:
  "toLowerCase (replaceSpaceRuns (toLowerCase s)) = replaceSpaceRuns (toLowerCase s)"
proof (rule toLowerCase_fixed, rule ballI)
  fix c assume "c \<in> set (replaceSpaceRuns (toLowerCase s))"
  then have "c \<in> set (toLowerCase s) \<or> c = CHR ''-''"
    using replaceSpaceRuns_set by blast
  then show "lowerChar c = c"
    by (auto simp: toLowerCase_def lowerChar_idem lowerChar_hyphen)
qed

lemma cleaned_idem:
  "replaceSpaceRuns (toLowerCase (replaceSpaceRuns (toLowerCase s)))
   = replaceSpaceRuns (toLowerCase s)"
  unfolding cleaned_fixed
  by (rule replaceSpaceRuns_id) (auto dest: replaceSpaceRuns_no_space)

lemma cleaned_no_slash:
  "\<forall>c\<in>set s. \<not> isSlash c \<Longrightarrow> \<forall>c\<in>set (replaceSpaceRuns (toLowerCase s)). \<not> isSlash c"
proof
  fix c assume a: "\<forall>c\<in>set s. \<not> isSlash c" and c: "c \<in> set (replaceSpaceRuns (toLowerCase s))"
  then have "c \<in> set (toLowerCase s) \<or> c = CHR ''-''"
    using replaceSpaceRuns_set by blast
  then show "\<not> isSlash c"
    using a by (auto simp: toLowerCase_def isSlash_lowerChar hyphen_not_slash)
qed

lemma cleaned_no_dot:
  "\<forall>c\<in>set s. \<not> isDot c \<Longrightarrow> \<forall>c\<in>set (replaceSpaceRuns (toLowerCase s)). \<not> isDot c"
proof
  fix c assume a: "\<forall>c\<in>set s. \<not> isDot c" and c: "c \<in> set (replaceSpaceRuns (toLowerCase s))"
  then have "c \<in> set (toLowerCase s) \<or> c = CHR ''-''"
    using replaceSpaceRuns_set by blast
  then show "\<not> isDot c"
    using a by (auto simp: toLowerCase_def isDot_lowerChar hyphen_not_dot)
qed

lemma cleaned_nonempty: "s \<noteq> [] \<Longrightarrow> replaceSpaceRuns (toLowerCase s) \<noteq> []"
  by (rule replaceSpaceRuns_nonempty) (simp add: toLowerCase_def)

lemma cleaned_dot_first:
  "replaceSpaceRuns (toLowerCase (CHR ''.'' # e)) = CHR ''.'' # replaceSpaceRuns (toLowerCase e)"
proof -
  have "lowerChar CHR ''.'' = CHR ''.''" by (simp add: lowerChar_def)
  moreover have "\<not> isSpace CHR ''.''" by (simp add: isSpace_def)
  ultimately show ?thesis by (simp add: toLowerCase_def)
qed

lemma cleaned_single_dot:
  "replaceSpaceRuns (toLowerCase s) = ''.'' \<Longrightarrow> s = ''.''"
proof (cases s)
  case Nil
  assume "replaceSpaceRuns (toLowerCase s) = ''.''"
  with Nil show ?thesis by (simp add: toLowerCase_def)
next
  case (Cons c cs)
  assume a: "replaceSpaceRuns (toLowerCase s) = ''.''"
  show ?thesis
  proof (cases "isSpace (lowerChar c)")
    case True
    with a Cons show ?thesis by (simp add: toLowerCase_def)
  next
    case False
    with a Cons have 1: "lowerChar c = CHR ''.''" and 2: "replaceSpaceRuns (toLowerCase cs) = []"
      by (simp_all add: toLowerCase_def)
    from 2 have "cs = []" using cleaned_nonempty by blast
    moreover from 1 have "isDot (lowerChar c)" by (simp add: isDot_def)
    then have "isDot c" by (simp only: isDot_lowerChar)
    then have "c = CHR ''.''" by (simp add: isDot_def)
    ultimately show ?thesis using Cons by simp
  qed
qed

lemma normalizeImageName_eq:
  "normalizeImageName p =
     (if extname p = [] then replaceSpaceRuns (toLowerCase (lastSegment p))
      else replaceSpaceRuns (toLowerCase (stem (lastSegment p))) @ extname p)"
  unfolding normalizeImageName_def Let_def basename2_extname by simp

lemma extname_cases:
  obtains (none) "extname p = []"
      "CHR ''.'' \<notin> set (lastSegment p) \<or> stem (lastSegment p) = [] \<or> lastSegment p = ''..''"
    | (some) "extname p = lastDotPart (lastSegment p)" "CHR ''.'' \<in> set (lastSegment p)"
      "stem (lastSegment p) \<noteq> []" "lastSegment p \<noteq> ''..''"
  by (auto simp: extname_def Let_def split: if_splits)

lemma normalizeImageName_no_ext:
  assumes "extname p = []"
  shows "normalizeImageName (normalizeImageName p) = normalizeImageName p"
proof -
  let ?seg = "lastSegment p"
  let ?r = "replaceSpaceRuns (toLowerCase ?seg)"
  have r: "normalizeImageName p = ?r" using assms by (simp add: normalizeImageName_eq)
  have ns: "\<forall>c\<in>set ?r. \<not> isSlash c"
    by (rule cleaned_no_slash) (auto dest: lastSegment_no_slash)
  have ls: "lastSegment ?r = ?r" using ns by (rule lastSegment_id)
  have "CHR ''.'' \<notin> set ?seg \<or> stem ?seg = [] \<or> ?seg = ''..''"
    using assms by (cases p rule: extname_cases) (auto simp: lastDotPart_def)
  then have "CHR ''.'' \<notin> set ?r \<or> stem ?r = [] \<or> ?r = ''..''"
  proof (elim disjE)
    assume "CHR ''.'' \<notin> set ?seg"
    then have "\<forall>c\<in>set ?seg. \<not> isDot c" by (auto simp: isDot_def)
    then have "\<forall>c\<in>set ?r. \<not> isDot c" by (rule cleaned_no_dot)
    then show ?thesis by (auto simp: isDot_def)
  next
    assume st: "stem ?seg = []"
    show ?thesis
    proof (cases "CHR ''.'' \<in> set ?seg")
      case False
      then have "\<forall>c\<in>set ?seg. \<not> isDot c" by (auto simp: isDot_def)
      then have "\<forall>c\<in>set ?r. \<not> isDot c" by (rule cleaned_no_dot)
      then show ?thesis by (auto simp: isDot_def)
    next
      case True
      then have "stem ?seg @ lastDotPart ?seg = ?seg" by (rule stem_lastDotPart)
      with st have "lastDotPart ?seg = ?seg" by simp
      moreover have "lastDotPart ?seg = CHR ''.'' # tl (lastDotPart ?seg)"
        by (simp add: lastDotPart_def)
      ultimately have seg: "?seg = CHR ''.'' # tl (lastDotPart ?seg)"
        by (rule subst)
      let ?e = "tl (lastDotPart ?seg)"
      have e: "\<forall>c\<in>set ?e. \<not> isDot c" by (auto dest: lastDotPart_tail_no_dot)
      have "?r = CHR ''.'' # replaceSpaceRuns (toLowerCase ?e)"
        by (subst seg) (rule cleaned_dot_first)
      moreover have "\<forall>c\<in>set (replaceSpaceRuns (toLowerCase ?e)). \<not> isDot c"
        using e by (rule cleaned_no_dot)
      then have "stem ([] @ CHR ''.'' # replaceSpaceRuns (toLowerCase ?e)) = []"
        by (rule stem_append_dot)
      ultimately show ?thesis by simp
    qed
  next
    assume "?seg = ''..''"
    then have "?r = ''..''" by (simp add: cleaned_dot_first) (simp add: toLowerCase_def)
    then show ?thesis by simp
  qed
  then have "extname ?r = []" by (auto simp: extname_def Let_def ls)
  then have "normalizeImageName ?r = replaceSpaceRuns (toLowerCase ?r)"
    by (simp add: normalizeImageName_eq ls)
  then show ?thesis unfolding r by (simp add: cleaned_idem)
qed

lemma normalizeImageName_with_ext:
  assumes "extname p \<noteq> []"
  shows "normalizeImageName (normalizeImageName p) = normalizeImageName p"
proof -
  let ?seg = "lastSegment p"
  let ?b = "replaceSpaceRuns (toLowerCase (stem ?seg))"
  let ?e = "tl (lastDotPart ?seg)"
  from assms have ext: "extname p = lastDotPart ?seg" and dot: "CHR ''.'' \<in> set ?seg"
    and st: "stem ?seg \<noteq> []" and nd: "?seg \<noteq> ''..''"
    by (cases p rule: extname_cases; simp)+
  have ldp: "lastDotPart ?seg = CHR ''.'' # ?e" by (simp add: lastDotPart_def)
  have split: "stem ?seg @ CHR ''.'' # ?e = ?seg"
    using stem_lastDotPart [OF dot] ldp by simp
  have e: "\<forall>c\<in>set ?e. \<not> isDot c" by (auto dest: lastDotPart_tail_no_dot)
  let ?r = "?b @ CHR ''.'' # ?e"
  have r: "normalizeImageName p = ?r"
    using assms ext ldp by (simp add: normalizeImageName_eq)
  have seg_ns: "\<forall>c\<in>set ?seg. \<not> isSlash c" by (auto dest: lastSegment_no_slash)
  have "\<forall>c\<in>set (stem ?seg). \<not> isSlash c"
    using seg_ns split by (metis Un_iff set_append)
  then have b_ns: "\<forall>c\<in>set ?b. \<not> isSlash c" by (rule cleaned_no_slash)
  have e_ns: "\<forall>c\<in>set (CHR ''.'' # ?e). \<not> isSlash c"
    using seg_ns split by (metis Un_iff set_append)
  have ns: "\<forall>c\<in>set ?r. \<not> isSlash c" using b_ns e_ns by auto
  have ls: "lastSegment ?r = ?r" using ns by (rule lastSegment_id)
  have bne: "?b \<noteq> []" using st by (rule cleaned_nonempty)
  have sr: "stem ?r = ?b" using e by (rule stem_append_dot)
  have lr: "lastDotPart ?r = CHR ''.'' # ?e" using e by (rule lastDotPart_append_dot)
  have rnd: "?r \<noteq> ''..''"
  proof
    assume a: "?r = ''..''"
    obtain x xs where b: "?b = x # xs" using bne by (cases ?b) auto
    with a have "xs @ CHR ''.'' # ?e = ''.''" by simp
    then have "xs = []" "?e = []" by (cases xs; simp)+
    with a b have "?b = ''.''" by simp
    then have "stem ?seg = ''.''" by (rule cleaned_single_dot)
    with split \<open>?e = []\<close> have "?seg = ''..''" by simp
    with nd show False by simp
  qed
  have er: "extname ?r = CHR ''.'' # ?e"
    using bne rnd sr lr by (simp add: extname_def Let_def ls)
  have "normalizeImageName ?r = replaceSpaceRuns (toLowerCase ?b) @ CHR ''.'' # ?e"
    unfolding normalizeImageName_eq er ls sr by simp
  then show ?thesis unfolding r by (simp add: cleaned_idem)
qed

lemma normalizeImageName_idem:
  "normalizeImageName (normalizeImageName s) = normalizeImageName s"
  by (cases "extname s = []") (simp_all add: normalizeImageName_no_ext normalizeImageName_with_ext)

lemma trim_set: "c \<in> set (trim s) \<Longrightarrow> c \<in> set s"
  by (auto simp: trim_def dest!: set_dropWhileD)

lemma slugify_chars: "c \<in> set (slugify s) \<Longrightarrow> isLowerAlnum c \<or> c = CHR ''-''"
proof -
  assume "c \<in> set (slugify s)"
  then have "(c \<in> set (trim (filter (\<lambda>c. isLowerAlnum c \<or> isSpace c \<or> c = CHR ''-'')
                               (toLowerCase s))) \<and> \<not> isSpace c) \<or> c = CHR ''-''"
    unfolding slugify_def by (rule replaceSpaceRuns_set)
  then show ?thesis by (auto dest!: trim_set)
qed

lemma slugify_fixed:
  assumes "\<forall>c\<in>set y. isLowerAlnum c \<or> c = CHR ''-''"
  shows "slugify y = y"
proof -
  have l: "toLowerCase y = y"
    by (rule toLowerCase_fixed) (use assms in \<open>auto simp: lowerChar_alnum lowerChar_hyphen\<close>)
  have f: "filter (\<lambda>c. isLowerAlnum c \<or> isSpace c \<or> c = CHR ''-'') y = y"
    using assms by (simp add: filter_id_conv) blast
  have sp: "\<forall>c\<in>set y. \<not> isSpace c"
    using assms isLowerAlnum_not_isSpace hyphen_not_space by auto
  have t: "trim y = y" using sp by (rule trim_no_space)
  have r: "replaceSpaceRuns y = y" using sp by (rule replaceSpaceRuns_id)
  show ?thesis by (simp add: slugify_def l f t r)
qed

lemma slugify_idem: "slugify (slugify s) = slugify s"
  by (rule slugify_fixed) (auto dest: slugify_chars)

text \<open>
  C9. Image-name normalization and slugification are functions of the name alone, and
  both are idempotent: normalizing a normalized image name, or slugifying a slug, gives
  it back unchanged. (Names are strings of Latin-1 code units; \<open>path.extname\<close> and
  \<open>path.basename\<close> are those of Node's POSIX \<open>path\<close>.)
\<close>

theorem names_idempotent:
  "normalizeImageName (normalizeImageName s) = normalizeImageName s
   \<and> slugify (slugify s) = slugify s"
  by (simp add: normalizeImageName_idem slugify_idem)

lemma names_examples:
  "normalizeImageName ''My Photo.PNG'' = ''my-photo.PNG''"
  "slugify ''Hello, World! 2024'' = ''hello-world-2024''"
  by code_simp+

theorem names_idempotent_witness:
  "normalizeImageName ''My Photo.PNG'' = ''my-photo.PNG''
   \<and> normalizeImageName ''my-photo.PNG'' = ''my-photo.PNG''
   \<and> slugify ''Hello, World! 2024'' = ''hello-world-2024''
   \<and> slugify ''hello-world-2024'' = ''hello-world-2024''"
  using names_idempotent [of "''My Photo.PNG''"] names_idempotent [of "''Hello, World! 2024''"]
  by (simp add: names_examples)

section \<open>Image relocator: rewriting the tokens\<close>

lemma getSubstitution_plain:
  "CHR ''$'' \<notin> set t \<Longrightarrow> getSubstitution m pre post t = t"
  by (induction m pre post t rule: getSubstitution.induct) auto

lemma splitFirst_sound:
  "splitFirst pat s = Some (a, b) \<Longrightarrow> s = a @ pat @ b"
proof (induction s arbitrary: a b)
  case Nil
  then show ?case by (simp split: if_splits)
next
  case (Cons c cs)
  show ?case
  proof (cases "startsWith (c # cs) pat")
    case True
    with Cons.prems have "a = []" "b = drop (length pat) (c # cs)" by simp_all
    moreover from True have "take (length pat) (c # cs) = pat" by (simp add: startsWith_def)
    ultimately show ?thesis by (metis append_Nil append_take_drop_id)
  next
    case False
    with Cons.prems obtain a' where "splitFirst pat cs = Some (a', b)" "a = c # a'"
      by auto
    with Cons.IH show ?thesis by simp
  qed
qed

text \<open>
  A token whose normalized name has no dollar sign is rewritten as intended: its first
  occurrence becomes the Markdown reference to \<open>./assets/\<close>, whatever the copy did.
\<close>

lemma jsReplace_token:
  assumes "splitFirst token content = Some (pre, post)"
    and "CHR ''$'' \<notin> set normName"
  shows "content = pre @ token @ post
         \<and> jsReplace content token (markdownImage normName)
             = pre @ ''!['' @ normName @ ''](./assets/'' @ normName @ '')'' @ post"
proof -
  have "CHR ''$'' \<notin> set (markdownImage normName)"
    using assms(2) by (simp add: markdownImage_def)
  then have "getSubstitution token pre post (markdownImage normName) = markdownImage normName"
    by (rule getSubstitution_plain)
  then have "jsReplace content token (markdownImage normName)
             = pre @ markdownImage normName @ post"
    using assms(1) by (simp add: jsReplace_def)
  then show ?thesis
    using splitFirst_sound [OF assms(1)] by (simp add: markdownImage_def)
qed

lemma processImages_example:
  "processImages plainIo ''see ![[My Photo.PNG]] here'' ''att'' ''out''
   = Inr (''see ![my-photo.PNG](./assets/my-photo.PNG) here'',
          [\<lparr>success = True, originalName = ''My Photo.PNG'',
            normalizedName = Some ''my-photo.PNG'', error = None\<rparr>])"
  "processImages halfIo ''see ![[My Photo.PNG]] here'' ''att'' ''out''
   = Inr (''see ![my-photo.PNG](./assets/my-photo.PNG) here'',
          [\<lparr>success = False, originalName = ''My Photo.PNG'',
            normalizedName = None, error = Some ''missing''\<rparr>])"
  by code_simp+

text \<open>
  C6. The normalization is as described (\<open>normalizeImageName_eq\<close>: the lower-cased base
  name with each whitespace run replaced by one hyphen, followed by the extension as it
  is; \<open>My Photo.PNG\<close> becomes \<open>my-photo.PNG\<close>), and the token is rewritten whether or
  not the copy succeeded (\<open>processImages_example\<close>). But the Markdown reference is handed
  to \<open>String.prototype.replace\<close> as a replacement pattern, in which \<open>$$\<close> stands for one
  dollar sign: for the image \<open>cost $$.png\<close>, copied to \<open>assets/cost-$$.png\<close>, the body
  refers to \<open>./assets/cost-$.png\<close> and not to the normalized name.
\<close>

theorem processImages_dollar_name:
  "processImages plainIo ''![[cost $$.png]]'' ''att'' ''out''
   = Inr (''![cost-$.png](./assets/cost-$.png)'',
          [\<lparr>success = True, originalName = ''cost $$.png'',
            normalizedName = Some ''cost-$$.png'', error = None\<rparr>])
   \<and> markdownImage (normalizeImageName ''cost $$.png'') = ''![cost-$$.png](./assets/cost-$$.png)''"
  by code_simp

section \<open>Frontmatter codec: round trip\<close>

lemma NL_space: "isSpace NL"
  by (simp add: NL_def isSpace_def)

lemma SQ_not_space: "\<not> isSpace SQ"
  by (simp add: SQ_def isSpace_def)

lemma trim_ends:
  assumes "s \<noteq> []" "\<not> isSpace (hd s)" "\<not> isSpace (last s)"
  shows "trim s = s"
proof -
  have 1: "dropWhile isSpace s = s" using assms(1,2) by (cases s) simp_all
  have "rev s = last s # rev (butlast s)"
    using assms(1) by (metis append_butlast_last_id rev.simps(2) rev_append rev_singleton_conv append_Cons append_Nil rev_rev_ident)
  moreover have "dropWhile isSpace (last s # rev (butlast s)) = last s # rev (butlast s)"
    using assms(3) by simp
  ultimately have 2: "dropWhile isSpace (rev s) = rev s" by (rule ssubst)
  show ?thesis by (simp add: trim_def 1 2)
qed

lemma trim_space_cons: "isSpace c \<Longrightarrow> trim (c # s) = trim s"
  by (simp add: trim_def)

lemma trim_snoc_space:
  assumes "isSpace c"
  shows "trim (s @ [c]) = trim s"
proof (cases "\<forall>x\<in>set s. isSpace x")
  case True
  have "\<forall>x\<in>set (s @ [c]). isSpace x" using True assms by simp
  then have a: "dropWhile isSpace (s @ [c]) = []" by (simp only: dropWhile_eq_Nil_conv)
  have b: "dropWhile isSpace s = []" using True by (simp only: dropWhile_eq_Nil_conv)
  show ?thesis unfolding trim_def a b by simp
next
  case False
  then have "dropWhile isSpace (s @ [c]) = dropWhile isSpace s @ [c]"
    by (induction s) auto
  then show ?thesis using assms by (simp add: trim_def)
qed

lemma trim_Nil: "trim [] = []"
  by (simp add: trim_def)

lemma indexOf_first: "x \<notin> set k \<Longrightarrow> indexOf x (k @ x # r) = Some (length k)"
  by (induction k) auto

lemma startsWith_Cons: "startsWith (c # s) [d] \<longleftrightarrow> c = d"
  by (simp add: startsWith_def)

lemma startsWith_Nil: "\<not> startsWith [] [d]"
  by (simp add: startsWith_def)

lemma endsWith_snoc: "endsWith (s @ [c]) [d] \<longleftrightarrow> c = d"
  by (simp add: endsWith_def isSuffixOf_def)

lemma slice1_wrap: "slice1 (c # s @ [d]) = s"
  by (simp add: slice1_def)

lemma splitOn_none: "sep \<notin> set x \<Longrightarrow> splitOn sep x = [x]"
  by (induction x) auto

lemma splitOn_append:
  "sep \<notin> set x \<Longrightarrow> splitOn sep (x @ sep # r) = x # splitOn sep r"
  by (induction x) auto

lemma splitOn_join:
  "ls \<noteq> [] \<Longrightarrow> \<forall>l\<in>set ls. sep \<notin> set l \<Longrightarrow> splitOn sep (joinWith [sep] ls) = ls"
proof (induction ls)
  case Nil
  then show ?case by simp
next
  case (Cons x xs)
  show ?case
  proof (cases xs)
    case Nil
    with Cons.prems show ?thesis by (simp add: splitOn_none)
  next
    case (Cons y ys)
    with Cons.prems Cons.IH show ?thesis by (simp add: splitOn_append)
  qed
qed

lemma parseLines_step:
  assumes "trim line = T" "T \<noteq> []" "\<not> startsWith T ''#''"
    and "indexOf CHR '':'' T = Some n"
    and "trim (take n T) = key" "trim (drop (n + 1) T) = v"
    and "rest = [] \<or> \<not> isListLine (hd rest)"
  shows "parseLines (line # rest) fm =
           (if startsWith (unquote v) ''['' \<and> endsWith (unquote v) '']''
            then parseLines rest (assignField fm key (FmArray (parseInline (unquote v))))
            else parseLines rest (assignField fm key (FmString (unquote v))))"
proof -
  have a: "\<not> (T = [] \<or> startsWith T ''#'')" using assms(2,3) by simp
  have b: "\<not> (rest \<noteq> [] \<and> isListLine (hd rest))" using assms(7) by blast
  have c: "trim (drop (Suc n) T) = v" using assms(6) by simp
  show ?thesis
    unfolding parseLines.simps Let_def assms(1) if_not_P [OF a] assms(4) option.case
      assms(5) Suc_eq_plus1 [symmetric] c if_not_P [OF b]
    by (rule refl)
qed

lemma dropWhile_rev_key:
  assumes "k \<noteq> []" "\<not> isSpace (last k)"
  shows "dropWhile isSpace (rev r @ rev k) = dropWhile isSpace (rev r) @ rev k"
proof -
  obtain bs l where k: "k = bs @ [l]" using assms(1) by (cases k rule: rev_cases) auto
  with assms(2) have "\<not> isSpace l" by simp
  then show ?thesis unfolding k by (simp add: dropWhile_append3)
qed

lemma trim_key:
  assumes "k \<noteq> []" "\<not> isSpace (hd k)" "\<not> isSpace (last k)"
  shows "trim (k @ r) = k @ rev (dropWhile isSpace (rev r))"
proof -
  have 1: "dropWhile isSpace (k @ r) = k @ r" using assms(1,2) by (cases k) simp_all
  show ?thesis
    unfolding trim_def 1 by (simp add: dropWhile_rev_key [OF assms(1,3)])
qed

lemma key_colon_ends:
  assumes "k = [] \<or> \<not> isSpace (hd k)"
  shows "k @ '':'' \<noteq> []" "\<not> isSpace (hd (k @ '':''))" "\<not> isSpace (last (k @ '':''))"
  using assms by (cases k; simp add: isSpace_def)+

lemma trim_key_colon:
  assumes "k = [] \<or> \<not> isSpace (hd k)"
  shows "trim (k @ '': '' @ payload)
         = k @ '':'' @ rev (dropWhile isSpace (rev ('' '' @ payload)))"
proof -
  have "trim ((k @ '':'') @ ('' '' @ payload))
        = (k @ '':'') @ rev (dropWhile isSpace (rev ('' '' @ payload)))"
    by (rule trim_key [OF key_colon_ends [OF assms]])
  then show ?thesis by simp
qed

lemma trimmed_line:
  assumes "k = [] \<or> \<not> isSpace (hd k)"
    and "payload = [] \<or> \<not> isSpace (last payload)"
  shows "trim (k @ '': '' @ payload)
         = k @ '':'' @ (if payload = [] then [] else '' '' @ payload)"
proof (cases "payload = []")
  case True
  have "isSpace CHR '' ''" by (simp add: isSpace_def)
  then show ?thesis using True trim_key_colon [OF assms(1), of "[]"] by simp
next
  case False
  then obtain bs l where p: "payload = bs @ [l]" by (cases payload rule: rev_cases) auto
  with assms(2) have l: "\<not> isSpace l" by simp
  have "dropWhile isSpace (rev ('' '' @ bs @ [l])) = rev ('' '' @ bs @ [l])"
    using l by simp
  then show ?thesis unfolding p using trim_key_colon [OF assms(1), of "bs @ [l]"] by simp
qed

lemma trim_result_ends:
  assumes "trim x \<noteq> []"
  shows "\<not> isSpace (hd (trim x)) \<and> \<not> isSpace (last (trim x))"
proof -
  let ?d = "dropWhile isSpace x"
  let ?e = "dropWhile isSpace (rev ?d)"
  have t: "trim x = rev ?e" by (simp add: trim_def)
  have e: "?e \<noteq> []" using assms unfolding t by simp
  have "\<not> isSpace (hd ?e)" using e by (rule hd_dropWhile)
  moreover have "last (rev ?e) = hd ?e" using e by (simp add: last_rev)
  ultimately have l: "\<not> isSpace (last (trim x))" unfolding t by simp
  have "rev ?d = takeWhile isSpace (rev ?d) @ ?e" by simp
  then have "last (rev ?d) = last ?e" using e by (metis last_appendR)
  moreover have d: "?d \<noteq> []" using e by (metis dropWhile.simps(1) rev.simps(1))
  ultimately have "last ?e = hd ?d" by (simp add: last_rev)
  moreover have "\<not> isSpace (hd ?d)" using d by (rule hd_dropWhile)
  moreover have "hd (rev ?e) = last ?e" using e by (simp add: hd_rev)
  ultimately have "\<not> isSpace (hd (trim x))" unfolding t by simp
  with l show ?thesis by simp
qed

lemma trim_fixed_ends:
  assumes "trim s = s" "s \<noteq> []"
  shows "\<not> isSpace (hd s) \<and> \<not> isSpace (last s)"
  using trim_result_ends [of s] assms by simp

lemma trim_fixed_hd:
  assumes "trim k = k"
  shows "k = [] \<or> \<not> isSpace (hd k)"
  using trim_fixed_ends [OF assms] by blast

lemma stripQuote_wrap: "stripQuote (SQ # v @ [SQ]) = v"
  by (simp add: stripQuote_def)

lemma trim_wrap: "trim (SQ # v @ [SQ]) = SQ # v @ [SQ]"
  by (rule trim_ends) (simp_all add: SQ_not_space)

lemma trim_space_wrap: "trim (CHR '' '' # SQ # v @ [SQ]) = SQ # v @ [SQ]"
proof -
  have "isSpace CHR '' ''" by (simp add: isSpace_def)
  then show ?thesis by (simp add: trim_space_cons trim_wrap)
qed

lemma SQ_not_comma: "SQ \<noteq> CHR '',''" "CHR '','' \<noteq> SQ"
  by (simp_all add: SQ_def)

lemma comma_not_in_wrap: "CHR '','' \<notin> set v \<Longrightarrow> CHR '','' \<notin> set (SQ # v @ [SQ])"
  by (simp add: SQ_def)

lemma split_items:
  "\<forall>v\<in>set (x # xs). CHR '','' \<notin> set v \<Longrightarrow>
   splitOn CHR '','' (joinWith '', '' (map (\<lambda>v. [SQ] @ v @ [SQ]) (x # xs)))
   = (SQ # x @ [SQ]) # map (\<lambda>v. CHR '' '' # SQ # v @ [SQ]) xs"
proof (induction xs arbitrary: x)
  case Nil
  then show ?case by (simp add: splitOn_none SQ_not_comma)
next
  case (Cons y ys)
  have ih: "splitOn CHR '','' (joinWith '', '' (map (\<lambda>v. [SQ] @ v @ [SQ]) (y # ys)))
            = (SQ # y @ [SQ]) # map (\<lambda>v. CHR '' '' # SQ # v @ [SQ]) ys"
    using Cons.prems by (intro Cons.IH) simp
  have c: "CHR '','' \<notin> set (SQ # x @ [SQ])" using Cons.prems by (simp add: SQ_not_comma)
  have "joinWith '', '' (map (\<lambda>v. [SQ] @ v @ [SQ]) (x # y # ys))
        = (SQ # x @ [SQ]) @ CHR '','' # (CHR '' '' # joinWith '', '' (map (\<lambda>v. [SQ] @ v @ [SQ]) (y # ys)))"
    by simp
  then have "splitOn CHR '','' (joinWith '', '' (map (\<lambda>v. [SQ] @ v @ [SQ]) (x # y # ys)))
        = (SQ # x @ [SQ]) # splitOn CHR '','' (CHR '' '' # joinWith '', '' (map (\<lambda>v. [SQ] @ v @ [SQ]) (y # ys)))"
    using splitOn_append [OF c] by (simp only:)
  also have "splitOn CHR '','' (CHR '' '' # joinWith '', '' (map (\<lambda>v. [SQ] @ v @ [SQ]) (y # ys)))
        = (CHR '' '' # SQ # y @ [SQ]) # map (\<lambda>v. CHR '' '' # SQ # v @ [SQ]) ys"
    unfolding splitOn.simps ih by simp
  finally show ?case by simp
qed

lemma joined_items_ends:
  "joinWith '', '' (map (\<lambda>v. [SQ] @ v @ [SQ]) (x # xs)) \<noteq> []
   \<and> hd (joinWith '', '' (map (\<lambda>v. [SQ] @ v @ [SQ]) (x # xs))) = SQ
   \<and> last (joinWith '', '' (map (\<lambda>v. [SQ] @ v @ [SQ]) (x # xs))) = SQ"
proof (induction xs arbitrary: x)
  case Nil
  show ?case by simp
next
  case (Cons y ys)
  from Cons.IH [of y] show ?case by simp
qed

lemma parseInline_array:
  assumes "list_all safeItem vs"
  shows "parseInline (CHR ''['' # joinWith '', '' (map (\<lambda>v. [SQ] @ v @ [SQ]) vs) @ '']'') = vs"
proof (cases vs)
  case Nil
  then show ?thesis by (simp add: parseInline_def slice1_def trim_Nil)
next
  case (Cons x xs)
  let ?J = "joinWith '', '' (map (\<lambda>v. [SQ] @ v @ [SQ]) (x # xs))"
  have e: "?J \<noteq> []" "hd ?J = SQ" "last ?J = SQ" using joined_items_ends [of x xs] by simp_all
  have t: "trim ?J = ?J" using e by (intro trim_ends) (simp_all add: SQ_not_space)
  have c: "\<forall>v\<in>set (x # xs). CHR '','' \<notin> set v"
    using assms Cons by (auto simp: list_all_iff safeItem_def)
  have s: "slice1 (CHR ''['' # ?J @ '']'') = ?J" by (rule slice1_wrap)
  have "parseInline (CHR ''['' # ?J @ '']'')
        = map (\<lambda>item. stripQuote (trim item)) (splitOn CHR '','' ?J)"
    unfolding parseInline_def Let_def s t using e(1) by simp
  also have "\<dots> = map (\<lambda>item. stripQuote (trim item))
                     ((SQ # x @ [SQ]) # map (\<lambda>v. CHR '' '' # SQ # v @ [SQ]) xs)"
    unfolding split_items [OF c] ..
  also have "\<dots> = x # xs"
    by (simp add: trim_wrap trim_space_wrap stripQuote_wrap map_idI)
  finally show ?thesis using Cons by simp
qed

lemma key_line:
  assumes kt: "trim k = k" and kc: "CHR '':'' \<notin> set k" and kh: "\<not> startsWith k ''#''"
    and p: "payload = [] \<or> (\<not> isSpace (hd payload) \<and> \<not> isSpace (last payload))"
    and r: "rest = [] \<or> \<not> isListLine (hd rest)"
  shows "parseLines ((k @ '': '' @ payload) # rest) fm =
           (if startsWith (unquote payload) ''['' \<and> endsWith (unquote payload) '']''
            then parseLines rest (assignField fm k (FmArray (parseInline (unquote payload))))
            else parseLines rest (assignField fm k (FmString (unquote payload))))"
proof -
  let ?T = "k @ '':'' @ (if payload = [] then [] else '' '' @ payload)"
  have ke: "k = [] \<or> \<not> isSpace (hd k)" using kt by (rule trim_fixed_hd)
  have pl: "payload = [] \<or> \<not> isSpace (last payload)" using p by blast
  have 1: "trim (k @ '': '' @ payload) = ?T"
    using ke pl by (rule trimmed_line)
  have 2: "?T \<noteq> []" by simp
  have 3: "\<not> startsWith ?T ''#''"
    using kh by (cases k) (simp_all add: startsWith_def)
  have 4: "indexOf CHR '':'' ?T = Some (length k)"
    using indexOf_first [OF kc] by simp
  have 5: "trim (take (length k) ?T) = k"
    using kt by simp
  have 6: "trim (drop (length k + 1) ?T) = payload"
  proof (cases "payload = []")
    case True
    then show ?thesis by (simp add: trim_Nil)
  next
    case False
    have sp: "isSpace CHR '' ''" by (simp add: isSpace_def)
    have "trim payload = payload" using False p by (intro trim_ends) auto
    then show ?thesis using False sp by (simp add: trim_space_cons)
  qed
  show ?thesis by (rule parseLines_step [OF 1 2 3 4 5 6 r])
qed

lemma startsWith_bracket_Cons: "startsWith (c # s) ''['' \<longleftrightarrow> c = CHR ''[''"
  by (simp add: startsWith_def)

lemma quoted_wrap: "quoted (SQ # s @ [SQ])"
  by (simp add: quoted_def startsWith_def endsWith_def isSuffixOf_def)

lemma not_quoted_bracket: "\<not> quoted (CHR ''['' # s)"
  by (simp add: quoted_def startsWith_def DQ_def SQ_def)

lemma endsWith_bracket_snoc: "endsWith (s @ '']'') '']''"
  by (simp add: endsWith_def isSuffixOf_def)

lemma assignField_own: "k \<noteq> ''__proto__'' \<Longrightarrow> assignField fm k v = fm(k \<mapsto> v)"
  by (simp add: assignField_def)

lemma assignField_proto: "assignField fm ''__proto__'' v = fm"
  by (simp add: assignField_def)

lemma entry_line:
  assumes e: "safeEntry (k, v)"
    and r: "rest = [] \<or> \<not> isListLine (hd rest)"
  shows "parseLines (formatLine (k, v) # rest) fm = parseLines rest (fm(k \<mapsto> v))"
proof -
  from e have kt: "trim k = k" and kc: "CHR '':'' \<notin> set k" and kh: "\<not> startsWith k ''#''"
    and np: "k \<noteq> ''__proto__''"
    by (simp_all add: safeEntry_def safeKey_def)
  note own = assignField_own [OF np]
  show ?thesis
  proof (cases v)
    case (FmString s)
    from e FmString have s: "safeScalar s" by (simp add: safeEntry_def)
    from s have nb: "\<not> (startsWith s ''['' \<and> endsWith s '']'')"
      and plain: "CHR '':'' \<in> set s \<or> (trim s = s \<and> \<not> quoted s)"
      by (simp_all add: safeScalar_def)
    show ?thesis
    proof (cases "CHR '':'' \<in> set s")
      case True
      let ?p = "SQ # s @ [SQ]"
      have f: "formatLine (k, v) = k @ '': '' @ ?p" using True FmString by (simp add: formatLine_def)
      have p: "?p = [] \<or> (\<not> isSpace (hd ?p) \<and> \<not> isSpace (last ?p))"
        by (simp add: SQ_not_space)
      have u: "unquote ?p = s" by (simp add: unquote_def quoted_wrap slice1_wrap)
      show ?thesis
        unfolding f key_line [OF kt kc kh p r] u if_not_P [OF nb] own using FmString by simp
    next
      case False
      from False plain have ts: "trim s = s" and nq: "\<not> quoted s" by simp_all
      have f: "formatLine (k, v) = k @ '': '' @ s" using False FmString by (simp add: formatLine_def)
      have p: "s = [] \<or> (\<not> isSpace (hd s) \<and> \<not> isSpace (last s))"
        using trim_fixed_ends [OF ts] by blast
      have u: "unquote s = s" using nq by (simp add: unquote_def)
      show ?thesis
        unfolding f key_line [OF kt kc kh p r] u if_not_P [OF nb] own using FmString by simp
    qed
  next
    case (FmArray vs)
    from e FmArray have s: "list_all safeItem vs" by (simp add: safeEntry_def)
    let ?J = "joinWith '', '' (map (\<lambda>v. [SQ] @ v @ [SQ]) vs)"
    let ?p = "CHR ''['' # ?J @ '']''"
    have f: "formatLine (k, v) = k @ '': '' @ ?p" using FmArray by (simp add: formatLine_def)
    have p: "?p = [] \<or> (\<not> isSpace (hd ?p) \<and> \<not> isSpace (last ?p))"
      by (simp add: isSpace_def)
    have u: "unquote ?p = ?p" by (simp add: unquote_def not_quoted_bracket)
    have b: "startsWith ?p ''['' \<and> endsWith ?p '']''"
      using endsWith_bracket_snoc [of "CHR ''['' # ?J"] by (simp add: startsWith_bracket_Cons)
    show ?thesis
      unfolding f key_line [OF kt kc kh p r] u if_P [OF b] parseInline_array [OF s] own
      using FmArray by simp
  qed
qed

lemma formatLine_shape: "\<exists>payload. formatLine (k, v) = k @ '': '' @ payload"
  by (cases v) (simp_all add: formatLine_def)

lemma formatLine_hd:
  assumes "safeEntry e"
  shows "formatLine e \<noteq> [] \<and> \<not> isSpace (hd (formatLine e))"
proof -
  obtain k v where e: "e = (k, v)" by (cases e)
  with assms have kt: "trim k = k" by (simp add: safeEntry_def safeKey_def)
  have ke: "k = [] \<or> \<not> isSpace (hd k)" using kt by (rule trim_fixed_hd)
  obtain payload where "formatLine (k, v) = k @ '': '' @ payload"
    using formatLine_shape by blast
  then show ?thesis using e ke by (cases k) (simp_all add: isSpace_def)
qed

lemma formatLine_later:
  assumes "laterKey (fst e)"
  shows "formatLine e \<noteq> [] \<and> hd (formatLine e) \<noteq> CHR ''-''"
proof -
  obtain k v where e: "e = (k, v)" by (cases e)
  with assms have kh: "\<not> startsWith k ''-''" by (simp add: laterKey_def)
  obtain payload where "formatLine (k, v) = k @ '': '' @ payload"
    using formatLine_shape by blast
  then show ?thesis using e kh by (cases k) (simp_all add: startsWith_def)
qed

lemma formatLine_not_list:
  assumes "safeEntry e" "laterKey (fst e)"
  shows "\<not> isListLine (formatLine e)"
proof -
  obtain k v where e: "e = (k, v)" by (cases e)
  with assms have kt: "trim k = k" and kh: "\<not> startsWith k ''-''"
    by (simp_all add: safeEntry_def safeKey_def laterKey_def)
  have ke: "k = [] \<or> \<not> isSpace (hd k)" using kt by (rule trim_fixed_hd)
  obtain payload where "formatLine (k, v) = k @ '': '' @ payload"
    using formatLine_shape by blast
  then have "trim (formatLine e) = k @ '':'' @ rev (dropWhile isSpace (rev ('' '' @ payload)))"
    using e trim_key_colon [OF ke] by simp
  then show ?thesis
    using kh by (cases k) (simp_all add: isListLine_def startsWith_def)
qed

lemma parseLines_all:
  "list_all safeEntry f \<Longrightarrow> list_all (\<lambda>entry. laterKey (fst entry)) (tl f) \<Longrightarrow>
   parseLines (map formatLine f) fm = foldl (\<lambda>m e. m(fst e \<mapsto> snd e)) fm f"
proof (induction f arbitrary: fm)
  case Nil
  show ?case by simp
next
  case (Cons e f)
  obtain k v where e: "e = (k, v)" by (cases e)
  have se: "safeEntry (k, v)" and sf: "list_all safeEntry f" using Cons.prems(1) e by simp_all
  have lf: "list_all (\<lambda>entry. laterKey (fst entry)) f" using Cons.prems(2) by simp
  then have lt: "list_all (\<lambda>entry. laterKey (fst entry)) (tl f)" by (cases f) simp_all
  have r: "map formatLine f = [] \<or> \<not> isListLine (hd (map formatLine f))"
  proof (cases f)
    case Nil
    then show ?thesis by simp
  next
    case (Cons e' f')
    with sf lf have "safeEntry e'" "laterKey (fst e')" by simp_all
    then show ?thesis using Cons by (simp add: formatLine_not_list)
  qed
  have step: "parseLines (formatLine (k, v) # map formatLine f) fm
        = parseLines (map formatLine f) (fm(k \<mapsto> v))"
    using se r by (rule entry_line)
  have a: "map formatLine (e # f) = formatLine (k, v) # map formatLine f" using e by simp
  have b: "foldl (\<lambda>m e. m(fst e \<mapsto> snd e)) fm (e # f)
           = foldl (\<lambda>m e. m(fst e \<mapsto> snd e)) (fm(k \<mapsto> v)) f"
    using e by simp
  show ?case unfolding a b step by (rule Cons.IH [OF sf lt])
qed

lemma foldl_map_of:
  "distinct (map fst f) \<Longrightarrow> foldl (\<lambda>m e. m(fst e \<mapsto> snd e)) fm f = fm ++ map_of f"
proof (induction f arbitrary: fm)
  case Nil
  show ?case by simp
next
  case (Cons e f)
  obtain k v where e: "e = (k, v)" by (cases e)
  with Cons.prems have d: "distinct (map fst f)" and n: "k \<notin> fst ` set f" by auto
  have "k \<notin> dom (map_of f)" using n by (simp add: dom_map_of_conv_image_fst)
  then have u: "fm(k \<mapsto> v) ++ map_of f = (fm ++ map_of f)(k \<mapsto> v)"
    by (rule map_add_upd_left)
  have "foldl (\<lambda>m e. m(fst e \<mapsto> snd e)) fm (e # f)
        = foldl (\<lambda>m e. m(fst e \<mapsto> snd e)) (fm(k \<mapsto> v)) f"
    unfolding e by (simp only: foldl_Cons fst_conv snd_conv)
  also have "\<dots> = fm(k \<mapsto> v) ++ map_of f" by (rule Cons.IH [OF d])
  also have "\<dots> = (fm ++ map_of f)(k \<mapsto> v)" by (rule u)
  also have "\<dots> = fm ++ map_of (e # f)"
    unfolding e by (simp only: map_of.simps map_add_upd fst_conv snd_conv)
  finally show ?case .
qed

lemma NL_not_dash: "NL \<noteq> CHR ''-''"
  by (simp add: NL_def)

lemma closeMarker_not_NL: "c \<noteq> NL \<Longrightarrow> closeMarker (c # s) = None"
  by (simp add: closeMarker_def startsWith_def)

lemma closeMarker_no_dashes: "\<not> startsWith t ''---'' \<Longrightarrow> closeMarker (NL # t) = None"
  by (simp add: closeMarker_def startsWith_def)

lemma findClose_skip_line:
  "NL \<notin> set l \<Longrightarrow> findClose acc (l @ s) = findClose (rev l @ acc) s"
proof (induction l arbitrary: acc)
  case Nil
  show ?case by simp
next
  case (Cons c l)
  then have "c \<noteq> NL" "NL \<notin> set l" by auto
  then show ?case using Cons.IH [of "c # acc"] by (simp add: closeMarker_not_NL)
qed

lemma findClose_skip_NL:
  "\<not> startsWith t ''---'' \<Longrightarrow> findClose acc (NL # t) = findClose (NL # acc) t"
  by (simp add: closeMarker_no_dashes)

lemma not_dashes: "l \<noteq> [] \<Longrightarrow> hd l \<noteq> CHR ''-'' \<Longrightarrow> \<not> startsWith (l @ s) ''---''"
  by (cases l) (simp_all add: startsWith_def)

lemma joinWith_Cons2:
  "ls \<noteq> [] \<Longrightarrow> joinWith sep (l # ls) = l @ sep @ joinWith sep ls"
  by (cases ls) simp_all

lemma joinWith_snoc:
  "ls \<noteq> [] \<Longrightarrow> joinWith sep (ls @ [x]) = joinWith sep ls @ sep @ x"
proof (induction ls)
  case Nil
  then show ?case by simp
next
  case (Cons l ls)
  show ?case
  proof (cases ls)
    case Nil
    then show ?thesis by simp
  next
    case (Cons y ys)
    then have "ls \<noteq> []" by simp
    then show ?thesis using Cons.IH by (simp add: joinWith_Cons2)
  qed
qed

lemma joinWith_hd:
  "ls \<noteq> [] \<Longrightarrow> hd ls \<noteq> [] \<Longrightarrow> joinWith sep ls \<noteq> [] \<and> hd (joinWith sep ls) = hd (hd ls)"
proof (cases ls)
  case Nil
  assume "ls \<noteq> []" with Nil show ?thesis by simp
next
  case (Cons l ls')
  assume "hd ls \<noteq> []"
  with Cons have "l \<noteq> []" by simp
  then show ?thesis using Cons by (cases ls') simp_all
qed

lemma findClose_lines:
  assumes "ls \<noteq> []" "\<forall>l\<in>set ls. NL \<notin> set l"
    and "\<forall>l\<in>set (tl ls). l \<noteq> [] \<and> hd l \<noteq> CHR ''-''"
  shows "findClose acc (joinWith [NL] ls @ s) = findClose (rev (joinWith [NL] ls) @ acc) s"
  using assms
proof (induction ls arbitrary: acc)
  case Nil
  then show ?case by simp
next
  case (Cons l ls)
  then have l: "NL \<notin> set l" by simp
  have later: "\<forall>x\<in>set ls. x \<noteq> [] \<and> hd x \<noteq> CHR ''-''" using Cons.prems(3) by simp
  show ?case
  proof (cases "ls = []")
    case True
    then show ?thesis using l by (simp add: findClose_skip_line)
  next
    case False
    let ?J = "joinWith [NL] ls"
    have h: "hd ls \<noteq> []" "hd (hd ls) \<noteq> CHR ''-''" using False later by (cases ls; simp)+
    have J: "?J \<noteq> []" "hd ?J \<noteq> CHR ''-''" using joinWith_hd [OF False h(1)] h(2) by simp_all
    have nd: "\<not> startsWith (?J @ s) ''---''" using J by (rule not_dashes)
    have nl: "\<forall>x\<in>set ls. NL \<notin> set x" using Cons.prems(2) by simp
    have tl: "\<forall>x\<in>set (tl ls). x \<noteq> [] \<and> hd x \<noteq> CHR ''-''"
      using later by (cases ls) simp_all
    have ih: "findClose (NL # rev l @ acc) (?J @ s) = findClose (rev ?J @ NL # rev l @ acc) s"
      using False nl tl by (rule Cons.IH)
    have "findClose acc (joinWith [NL] (l # ls) @ s) = findClose acc (l @ NL # (?J @ s))"
      using False by (simp add: joinWith_Cons2)
    also have "\<dots> = findClose (rev l @ acc) (NL # (?J @ s))" using l by (rule findClose_skip_line)
    also have "\<dots> = findClose (NL # rev l @ acc) (?J @ s)" using nd by (rule findClose_skip_NL)
    also have "\<dots> = findClose (rev ?J @ NL # rev l @ acc) s" by (rule ih)
    also have "\<dots> = findClose (rev (joinWith [NL] (l # ls)) @ acc) s"
      using False by (simp add: joinWith_Cons2)
    finally show ?thesis .
  qed
qed

lemma afterLineFeeds_none: "NL \<notin> set (takeWhile isSpace b) \<Longrightarrow> afterLineFeeds b = []"
  by (induction b) (auto split: if_splits)

lemma afterLineFeeds_nonspace: "\<not> isSpace c \<Longrightarrow> afterLineFeeds (c # s) = []"
  by simp

lemma closeMarker_closing:
  "safeBody b \<Longrightarrow> closeMarker (NL # ''---'' @ NL # b) = Some b"
  by (simp add: closeMarker_def startsWith_def safeBody_def afterLineFeeds_none NL_space)

lemma set_joinWith: "c \<in> set (joinWith sep xs) \<Longrightarrow> c \<in> set sep \<or> (\<exists>x\<in>set xs. c \<in> set x)"
  by (induction sep xs rule: joinWith.induct) auto

lemma formatLine_no_NL:
  assumes "safeEntry e"
  shows "NL \<notin> set (formatLine e)"
proof -
  obtain k v where e: "e = (k, v)" by (cases e)
  from assms e have k: "NL \<notin> set k" by (simp add: safeEntry_def safeKey_def)
  have c: "NL \<noteq> CHR '':''" "NL \<noteq> CHR '' ''" "NL \<noteq> SQ" "NL \<noteq> CHR ''[''" "NL \<noteq> CHR '']''"
    "NL \<noteq> CHR '',''"
    by (simp_all add: NL_def SQ_def)
  show ?thesis
  proof (cases v)
    case (FmString s)
    with assms e have "NL \<notin> set s" by (simp add: safeEntry_def safeScalar_def)
    then show ?thesis using e FmString k c by (simp add: formatLine_def)
  next
    case (FmArray vs)
    with assms e have vs: "\<forall>x\<in>set vs. NL \<notin> set x"
      by (simp add: safeEntry_def list_all_iff safeItem_def)
    have "NL \<notin> set (joinWith '', '' (map (\<lambda>v. [SQ] @ v @ [SQ]) vs))"
    proof
      assume "NL \<in> set (joinWith '', '' (map (\<lambda>v. [SQ] @ v @ [SQ]) vs))"
      then have "NL \<in> set '', '' \<or> (\<exists>x\<in>set (map (\<lambda>v. [SQ] @ v @ [SQ]) vs). NL \<in> set x)"
        by (rule set_joinWith)
      then show False using vs c by auto
    qed
    then show ?thesis using e FmArray k c by (simp add: formatLine_def)
  qed
qed

lemma matchFrontmatter_serialized:
  assumes "safeFields f" "safeBody b"
  shows "matchFrontmatter (serialize f b) = Some (joinWith [NL] (map formatLine f), b)"
proof -
  let ?ls = "map formatLine f"
  let ?L = "joinWith [NL] ?ls"
  let ?M = "NL # ''---'' @ NL # b"
  from assms(1) have fne: "f \<noteq> []" and safe: "list_all safeEntry f"
    and later: "list_all (\<lambda>entry. laterKey (fst entry)) (tl f)"
    by (simp_all add: safeFields_def)
  have lne: "?ls \<noteq> []" using fne by simp
  have lines: "\<forall>l\<in>set ?ls. NL \<notin> set l"
    using safe formatLine_no_NL by (auto simp: list_all_iff)
  have "tl ?ls = map formatLine (tl f)" by (rule map_tl [symmetric])
  then have tls: "\<forall>l\<in>set (tl ?ls). l \<noteq> [] \<and> hd l \<noteq> CHR ''-''"
    using later formatLine_later by (auto simp: list_all_iff)
  have "safeEntry (hd f)" using fne safe by (cases f) simp_all
  then have h: "hd ?ls \<noteq> []" "\<not> isSpace (hd (hd ?ls))"
    using fne formatLine_hd [of "hd f"] by (simp_all add: hd_map)
  have Lh: "?L \<noteq> []" "\<not> isSpace (hd ?L)" using joinWith_hd [OF lne h(1)] h(2) by simp_all
  have ser: "serialize f b = ''---'' @ NL # (?L @ ?M)"
  proof -
    have "joinWith [NL] (''---'' # ?ls @ [''---'']) = ''---'' @ [NL] @ joinWith [NL] (?ls @ [''---''])"
      by (rule joinWith_Cons2) simp
    also have "joinWith [NL] (?ls @ [''---'']) = ?L @ [NL] @ ''---''"
      using lne by (rule joinWith_snoc)
    finally show ?thesis by (simp add: serialize_def formatFrontmatter_def)
  qed
  obtain c t where L: "?L = c # t" using Lh(1) by (cases ?L) auto
  with Lh(2) have "\<not> isSpace c" by simp
  then have "afterLineFeeds (?L @ ?M) = []" unfolding L by simp
  then have al: "afterLineFeeds (NL # (?L @ ?M)) = [?L @ ?M]" by (simp add: NL_space)
  have "findClose [] (?L @ ?M) = findClose (rev ?L @ []) ?M"
    using lne lines tls by (rule findClose_lines)
  also have "\<dots> = Some (?L, b)"
    using closeMarker_closing [OF assms(2)] by simp
  finally have fc: "findClose [] (?L @ ?M) = Some (?L, b)" .
  have "matchFrontmatter (serialize f b) = firstMatch (rev (afterLineFeeds (NL # (?L @ ?M))))"
    unfolding ser by (simp add: matchFrontmatter_def startsWith_def)
  also have "\<dots> = Some (?L, b)" unfolding al using fc by simp
  finally show ?thesis .
qed

text \<open>
  C5, as stated, fails: the scalar \<open>[draft]\<close> is written bare and read back as the array
  of \<open>draft\<close>; the one-item array of \<open>a, b\<close> is read back as two items; a scalar in
  quotes loses them and a scalar that starts with a blank loses it; and a scalar followed
  by a key that starts with a hyphen is read back as a list.
\<close>

theorem codec_round_trip_counterexample:
  "fst (parseFrontmatter (serialize [(''title'', FmString ''[draft]'')] ''body'')) ''title''
     = Some (FmArray [''draft''])
   \<and> fst (parseFrontmatter (serialize [(''tags'', FmArray [''a, b''])] ''body'')) ''tags''
     = Some (FmArray [''a'', ''b''])
   \<and> fst (parseFrontmatter (serialize [(''title'', FmString (SQ # ''x'' @ [SQ]))] ''body'')) ''title''
     = Some (FmString ''x'')
   \<and> fst (parseFrontmatter (serialize [(''title'', FmString '' x'')] ''body'')) ''title''
     = Some (FmString ''x'')
   \<and> fst (parseFrontmatter (serialize [(''a'', FmString ''x''), (''-b'', FmString ''y'')] ''body'')) ''a''
     = Some (FmArray [''b: y''])"
  by code_simp

text \<open>
  The other limits of the amended statement are met as well: a key with a colon is cut at
  it, a key with a blank at an end loses it, a key that starts with \<open>#\<close> is taken for a
  comment, and the key \<open>__proto__\<close> stores no field, whether its value is a string or an
  array; a value of two lines is cut at the line feed; a body that starts with a line
  feed loses it; and a block without fields is not recognised, so that the whole text is
  the body.
\<close>

lemma codec_limits:
  "fst (parseFrontmatter (serialize [(''a:b'', FmString ''x'')] ''body'')) ''a:b'' = None"
  "fst (parseFrontmatter (serialize [(''k '', FmString ''x'')] ''body'')) ''k '' = None"
  "fst (parseFrontmatter (serialize [(''#k'', FmString ''x'')] ''body'')) ''#k'' = None"
  "fst (parseFrontmatter (serialize [(''__proto__'', FmString ''x'')] ''body'')) ''__proto__'' = None"
  "fst (parseFrontmatter (serialize [(''__proto__'', FmArray [''x''])] ''body'')) ''__proto__'' = None"
  "fst (parseFrontmatter (serialize [(''k'', FmString (''x'' @ [NL] @ ''y''))] ''body'')) ''k''
     = Some (FmString ''x'')"
  "snd (parseFrontmatter (serialize [(''title'', FmString ''x'')] (NL # ''body''))) = ''body''"
  "snd (parseFrontmatter (serialize [] ''body'')) = ''---'' @ [NL] @ ''---'' @ [NL] @ ''body''"
  by code_simp+

text \<open>
  Inside these limits nothing more is asked: the empty key, a first key that starts with a
  hyphen, a quoted scalar that holds a colon and an empty array all come back as they
  were.
\<close>

lemma codec_edge_examples:
  "fst (parseFrontmatter (serialize [([], FmString ''x'')] ''body'')) [] = Some (FmString ''x'')"
  "fst (parseFrontmatter (serialize [(''-k'', FmString ''x''), (''b'', FmString ''y'')] ''body'')) ''-k''
     = Some (FmString ''x'')"
  "fst (parseFrontmatter (serialize [(''-k'', FmString ''x''), (''b'', FmString ''y'')] ''body'')) ''b''
     = Some (FmString ''y'')"
  "fst (parseFrontmatter (serialize [(''k'', FmString (SQ # ''a: b'' @ [SQ]))] ''body'')) ''k''
     = Some (FmString (SQ # ''a: b'' @ [SQ]))"
  "fst (parseFrontmatter (serialize [(''k'', FmArray [])] ''body'')) ''k'' = Some (FmArray [])"
  by code_simp+

text \<open>
  C5, amended. For every list of fields with at least one entry and no key twice, whose
  keys are single lines without a colon and without whitespace at either end that do not
  start with \<open>#\<close> and are not \<open>__proto__\<close> (the empty key is allowed), of which only the
  first may start with a hyphen, whose scalar values are single lines that are not
  wrapped in brackets and that either hold a colon or have no whitespace at either end
  and are not wrapped in quotes, and whose array items are single lines without commas,
  and for every body whose leading whitespace holds no line feed: parsing the serialized
  text gives back exactly these fields, arrays as arrays and scalars as scalars, and the
  identical body.
\<close>

theorem codec_round_trip:
  assumes "safeFields f" "safeBody b"
  shows "parseFrontmatter (serialize f b) = (map_of f, b)"
proof -
  let ?ls = "map formatLine f"
  from assms(1) have fne: "f \<noteq> []" and d: "distinct (map fst f)" and safe: "list_all safeEntry f"
    and later: "list_all (\<lambda>entry. laterKey (fst entry)) (tl f)"
    by (simp_all add: safeFields_def)
  have nl: "\<forall>l\<in>set ?ls. NL \<notin> set l"
    using safe formatLine_no_NL by (auto simp: list_all_iff)
  have sp: "splitOn NL (joinWith [NL] ?ls) = ?ls"
    using fne nl by (intro splitOn_join) simp_all
  have "parseFrontmatter (serialize f b) = (parseLines ?ls Map.empty, b)"
    unfolding parseFrontmatter_def matchFrontmatter_serialized [OF assms] by (simp add: sp)
  also have "parseLines ?ls Map.empty = foldl (\<lambda>m e. m(fst e \<mapsto> snd e)) Map.empty f"
    using safe later by (rule parseLines_all)
  also have "\<dots> = Map.empty ++ map_of f" using d by (rule foldl_map_of)
  finally show ?thesis by simp
qed

lemma codec_example_safe:
  "safeFields [(''-draft'', FmString ''a: b''), ([], FmArray [''x'', ''y z'']),
               (''title'', FmString ''Hello'')]"
  "safeBody ''body text''"
  by code_simp+

theorem codec_round_trip_witness:
  "safeFields [(''-draft'', FmString ''a: b''), ([], FmArray [''x'', ''y z'']),
               (''title'', FmString ''Hello'')]
   \<and> safeBody ''body text''
   \<and> parseFrontmatter
         (serialize [(''-draft'', FmString ''a: b''), ([], FmArray [''x'', ''y z'']),
                     (''title'', FmString ''Hello'')] ''body text'')
     = (map_of [(''-draft'', FmString ''a: b''), ([], FmArray [''x'', ''y z'']),
                (''title'', FmString ''Hello'')], ''body text'')"
  using codec_round_trip [OF codec_example_safe] codec_example_safe by simp

end
